theory Spec2Isabelle
  imports Main "HOL-Library.Sublist"
begin

section \<open>Python values and builtins used by the two post offices\<close>

text \<open>
  Both \<^verbatim>\<open>turtle_sent.py\<close> and \<^verbatim>\<open>turtle_sent_two.py\<close> look a user up with
  \<^verbatim>\<open>self.boxes[user]\<close>; a missing key raises \<^verbatim>\<open>KeyError\<close>, the only exception
  either file can raise on string and integer arguments. \<open>ConfigError\<close> is the error the
  specification names for the constructor; no line of the source raises it.
\<close>

datatype error = KeyError | ConfigError

text \<open>
  \<^verbatim>\<open>str.__contains__\<close>: the receiver contains the argument as a contiguous run of
  characters. The comparison is on the characters themselves, so it is case-sensitive.
\<close>

fun str_contains :: "string \<Rightarrow> string \<Rightarrow> bool" where
  "str_contains [] part = (part = [])"
| "str_contains (c # cs) part = (prefix part (c # cs) \<or> str_contains cs part)"

text \<open>\<^verbatim>\<open>xs[0:n]\<close>: a non-negative bound keeps the first \<open>n\<close> items, a negative one
  drops the last \<open>-n\<close>.\<close>

definition slice_to :: "'a list \<Rightarrow> int \<Rightarrow> 'a list" where
  "slice_to xs n = (if 0 \<le> n then take (nat n) xs else take (length xs - nat (- n)) xs)"

text \<open>\<^verbatim>\<open>str\<close> of an integer (decimal digits, a leading minus sign) and of a boolean.\<close>

fun str_nat :: "nat \<Rightarrow> string" where
  "str_nat n =
     (if n < 10 then [''0123456789'' ! n] else str_nat (n div 10) @ [''0123456789'' ! (n mod 10)])"

declare str_nat.simps [simp del]

definition str_int :: "int \<Rightarrow> string" where
  "str_int i = (if i < 0 then CHR ''-'' # str_nat (nat (- i)) else str_nat (nat i))"

definition str_bool :: "bool \<Rightarrow> string" where
  "str_bool b = (if b then ''True'' else ''False'')"

section \<open>\<^verbatim>\<open>turtle_sent.py\<close>: messages as dictionaries\<close>

text \<open>
  The dictionary built in \<^verbatim>\<open>send_message\<close> always has the four keys \<^verbatim>\<open>'id'\<close>,
  \<^verbatim>\<open>'body'\<close>, \<^verbatim>\<open>'sender'\<close> and \<^verbatim>\<open>'read'\<close>; it is a record with one field per key
  (\<open>id\<close> is taken in HOL, hence the suffix).
\<close>

record message_details =
  id_key :: int
  body_key :: string
  sender_key :: string
  read_key :: bool

record PostOffice =
  message_id :: int
  read :: bool
  boxes :: "string \<rightharpoonup> message_details list"

text \<open>The dictionary comprehension \<^verbatim>\<open>{user: [] for user in usernames}\<close>: a later
  occurrence of a key overwrites the earlier one.\<close>

fun dict_comp :: "string list \<Rightarrow> (string \<rightharpoonup> 'a list) \<Rightarrow> (string \<rightharpoonup> 'a list)" where
  "dict_comp [] d = d"
| "dict_comp (user # usernames) d = dict_comp usernames (d(user \<mapsto> []))"

definition init :: "string list \<Rightarrow> PostOffice" where
  "init usernames = \<lparr>message_id = 0, read = False, boxes = dict_comp usernames Map.empty\<rparr>"

text \<open>The constructor call as a computation that could fail: \<^verbatim>\<open>__init__\<close> has no
  \<^verbatim>\<open>raise\<close> and no lookup, so it always returns the object.\<close>

definition construct :: "string list \<Rightarrow> error + PostOffice" where
  "construct usernames = Inr (init usernames)"

text \<open>
  Every method returns its outcome (the exception raised or the value returned) together
  with the object as the call leaves it. The lookup on line 67 comes before the counter is
  touched on line 68.
\<close>

definition send_message ::
  "string \<Rightarrow> string \<Rightarrow> string \<Rightarrow> bool \<Rightarrow> PostOffice \<Rightarrow> (error + int) \<times> PostOffice" where
  "send_message sender recipient message_body urgent self =
     (case boxes self recipient of
        None \<Rightarrow> (Inl KeyError, self)
      | Some user_box \<Rightarrow>
          (let self1 = self\<lparr>message_id := message_id self + 1\<rparr>;
               details = \<lparr>id_key = message_id self1, body_key = message_body,
                          sender_key = sender, read_key = read self1\<rparr>;
               user_box1 = (if urgent then details # user_box else user_box @ [details])
           in (Inr (message_id self1), self1\<lparr>boxes := (boxes self1)(recipient \<mapsto> user_box1)\<rparr>)))"

text \<open>
  \<^verbatim>\<open>read_inbox\<close> keeps references to the stored dictionaries in \<^verbatim>\<open>message_read\<close>,
  mutates the stored dictionaries and returns the references. The list of a mailbox is not
  restructured during the call, so a reference is modelled by the position of the dictionary
  in the mailbox: \<open>unread_refs\<close> is the comprehension of line 106, and reading a reference
  is \<open>box ! i\<close> in the mailbox as it is at that moment.
\<close>

definition unread_refs :: "message_details list \<Rightarrow> nat list" where
  "unread_refs box = filter (\<lambda>i. read_key (box ! i) = False) [0..<length box]"

text \<open>The inner loop of lines 111 to 113, over the positions \<^verbatim>\<open>range(len_message)\<close>.\<close>

primrec mark_loop :: "nat list \<Rightarrow> int \<Rightarrow> message_details list \<Rightarrow> message_details list" where
  "mark_loop [] mid box = box"
| "mark_loop (i # rest) mid box =
     mark_loop rest mid
       (if id_key (box ! i) = mid then box[i := (box ! i)\<lparr>read_key := True\<rparr>] else box)"

text \<open>The outer loop of line 110, over the selected references.\<close>

primrec read_loop :: "nat list \<Rightarrow> nat \<Rightarrow> message_details list \<Rightarrow> message_details list" where
  "read_loop [] len_message box = box"
| "read_loop (m # rest) len_message box =
     read_loop rest len_message (mark_loop [0..<len_message] (id_key (box ! m)) box)"

definition selection :: "int \<Rightarrow> 'a list \<Rightarrow> 'a list" where
  "selection number_of_message message_read =
     (if number_of_message > 0 then slice_to message_read number_of_message else message_read)"

definition read_inbox ::
  "string \<Rightarrow> int \<Rightarrow> PostOffice \<Rightarrow> (error + message_details list) \<times> PostOffice" where
  "read_inbox user number_of_message self =
     (case boxes self user of
        None \<Rightarrow> (Inl KeyError, self)
      | Some box \<Rightarrow>
          (let len_message = length box;
               message_read = selection number_of_message (unread_refs box);
               box1 = read_loop message_read len_message box
           in (Inr (map (\<lambda>m. box1 ! m) message_read),
               self\<lparr>boxes := (boxes self)(user \<mapsto> box1)\<rparr>)))"

definition search_inbox ::
  "string \<Rightarrow> string \<Rightarrow> PostOffice \<Rightarrow> (error + message_details list) \<times> PostOffice" where
  "search_inbox user part_message self =
     (case boxes self user of
        None \<Rightarrow> (Inl KeyError, self)
      | Some box \<Rightarrow>
          (Inr (filter (\<lambda>message. str_contains (body_key message) part_message) box), self))"

section \<open>\<^verbatim>\<open>turtle_sent_two.py\<close>: messages as objects\<close>

text \<open>
  Names of the second file that the first file already uses carry a suffix: the attribute
  \<^verbatim>\<open>message_id\<close> of class \<^verbatim>\<open>Message\<close> is \<open>message_id_M\<close>, and the second
  \<^verbatim>\<open>PostOffice\<close> and its methods end in \<open>2\<close>.
\<close>

record Message =
  message_id_M :: int
  message_body :: string
  message_sender :: string
  message_read :: bool

definition Message_init :: "int \<Rightarrow> string \<Rightarrow> string \<Rightarrow> Message" where
  "Message_init m_id body sender =
     \<lparr>message_id_M = m_id, message_body = body, message_sender = sender, message_read = False\<rparr>"

text \<open>\<^verbatim>\<open>get_details\<close> returns a set literal holding one string.\<close>

definition get_details :: "Message \<Rightarrow> string set" where
  "get_details self =
     {''Id: '' @ str_int (message_id_M self) @ '', Body: '' @ message_body self
        @ '', Sender: '' @ message_sender self @ '', Read: '' @ str_bool (message_read self)}"

definition set_read :: "bool \<Rightarrow> Message \<Rightarrow> Message" where
  "set_read status_read self = self\<lparr>message_read := status_read\<rparr>"

record PostOffice2 =
  message_id2 :: int
  boxes2 :: "string \<rightharpoonup> Message list"

definition init2 :: "string list \<Rightarrow> PostOffice2" where
  "init2 usernames = \<lparr>message_id2 = 0, boxes2 = dict_comp usernames Map.empty\<rparr>"

definition construct2 :: "string list \<Rightarrow> error + PostOffice2" where
  "construct2 usernames = Inr (init2 usernames)"

definition send_message2 ::
  "string \<Rightarrow> string \<Rightarrow> string \<Rightarrow> bool \<Rightarrow> PostOffice2 \<Rightarrow> (error + int) \<times> PostOffice2" where
  "send_message2 sender recipient body urgent self =
     (case boxes2 self recipient of
        None \<Rightarrow> (Inl KeyError, self)
      | Some user_box \<Rightarrow>
          (let self1 = self\<lparr>message_id2 := message_id2 self + 1\<rparr>;
               details = Message_init (message_id2 self1) body sender;
               user_box1 = (if urgent then details # user_box else user_box @ [details])
           in (Inr (message_id_M details), self1\<lparr>boxes2 := (boxes2 self1)(recipient \<mapsto> user_box1)\<rparr>)))"

definition unread_refs2 :: "Message list \<Rightarrow> nat list" where
  "unread_refs2 box = filter (\<lambda>i. message_read (box ! i) = False) [0..<length box]"

text \<open>The loop of lines 156 and 157: \<^verbatim>\<open>set_read(True)\<close> on each selected object.\<close>

primrec set_read_loop :: "nat list \<Rightarrow> Message list \<Rightarrow> Message list" where
  "set_read_loop [] box = box"
| "set_read_loop (m # rest) box = set_read_loop rest (box[m := set_read True (box ! m)])"

definition read_inbox2 ::
  "string \<Rightarrow> int \<Rightarrow> PostOffice2 \<Rightarrow> (error + string set list) \<times> PostOffice2" where
  "read_inbox2 user number_of_message self =
     (case boxes2 self user of
        None \<Rightarrow> (Inl KeyError, self)
      | Some box \<Rightarrow>
          (let message_read = selection number_of_message (unread_refs2 box);
               box1 = set_read_loop message_read box
           in (Inr (map (\<lambda>m. get_details (box1 ! m)) message_read),
               self\<lparr>boxes2 := (boxes2 self)(user \<mapsto> box1)\<rparr>)))"

definition search_inbox2 ::
  "string \<Rightarrow> string \<Rightarrow> PostOffice2 \<Rightarrow> (error + string set list) \<times> PostOffice2" where
  "search_inbox2 user part_message self =
     (case boxes2 self user of
        None \<Rightarrow> (Inl KeyError, self)
      | Some box \<Rightarrow>
          (Inr (map get_details
                  (filter (\<lambda>message. str_contains (message_body message) part_message) box)), self))"

section \<open>Clients: sequences of calls on one object\<close>

datatype call =
    Send_message string string string bool
  | Read_inbox string int
  | Search_inbox string string

datatype 'd reply = Sent int | Listed "'d list" | Raised error

fun reply_sent :: "(error + int) \<Rightarrow> 'd reply" where
  "reply_sent (Inl e) = Raised e"
| "reply_sent (Inr i) = Sent i"

fun reply_listed :: "(error + 'd list) \<Rightarrow> 'd reply" where
  "reply_listed (Inl e) = Raised e"
| "reply_listed (Inr ms) = Listed ms"

fun do_call :: "call \<Rightarrow> PostOffice \<Rightarrow> message_details reply \<times> PostOffice" where
  "do_call (Send_message sender recipient body urgent) self =
     (let (r, self1) = send_message sender recipient body urgent self in (reply_sent r, self1))"
| "do_call (Read_inbox user number_of_message) self =
     (let (r, self1) = read_inbox user number_of_message self in (reply_listed r, self1))"
| "do_call (Search_inbox user part_message) self =
     (let (r, self1) = search_inbox user part_message self in (reply_listed r, self1))"

fun run :: "call list \<Rightarrow> PostOffice \<Rightarrow> message_details reply list \<times> PostOffice" where
  "run [] self = ([], self)"
| "run (c # cs) self =
     (let (r, self1) = do_call c self; (rs, self2) = run cs self1 in (r # rs, self2))"

fun do_call2 :: "call \<Rightarrow> PostOffice2 \<Rightarrow> string set reply \<times> PostOffice2" where
  "do_call2 (Send_message sender recipient body urgent) self =
     (let (r, self1) = send_message2 sender recipient body urgent self in (reply_sent r, self1))"
| "do_call2 (Read_inbox user number_of_message) self =
     (let (r, self1) = read_inbox2 user number_of_message self in (reply_listed r, self1))"
| "do_call2 (Search_inbox user part_message) self =
     (let (r, self1) = search_inbox2 user part_message self in (reply_listed r, self1))"

fun run2 :: "call list \<Rightarrow> PostOffice2 \<Rightarrow> string set reply list \<times> PostOffice2" where
  "run2 [] self = ([], self)"
| "run2 (c # cs) self =
     (let (r, self1) = do_call2 c self; (rs, self2) = run2 cs self1 in (r # rs, self2))"

text \<open>The ids returned by the successful \<^verbatim>\<open>send_message\<close> calls of a run, in call order.\<close>

fun sent_ids :: "'d reply list \<Rightarrow> int list" where
  "sent_ids [] = []"
| "sent_ids (Sent i # rs) = i # sent_ids rs"
| "sent_ids (r # rs) = sent_ids rs"

section \<open>The client of the source files\<close>

text \<open>\<^verbatim>\<open>show_example\<close> of both files: the users it registers and the calls it makes, in
  order.\<close>

definition users :: "string list" where
  "users = [''Newman'', ''Mr. Peanutbutter'']"

definition show_example :: "call list" where
  "show_example =
     [Send_message ''Mr. Peanutbutter'' ''Newman'' ''Hello, Newman.'' False,
      Send_message ''Mr. Peanutbutter'' ''Newman'' ''Hello world, Newman.'' False,
      Send_message ''Mr. Peanutbutter'' ''Newman'' ''Good bye, Newman.'' False,
      Read_inbox ''Newman'' 1,
      Read_inbox ''Newman'' 1,
      Search_inbox ''Newman'' ''Good'',
      Search_inbox ''Newman'' ''llo'',
      Search_inbox ''Newman'' ''hi'']"

section \<open>Comparing the two files\<close>

text \<open>
  A dictionary of the first file and a \<^verbatim>\<open>Message\<close> of the second correspond when they hold
  the same id, body, sender and read flag. Two objects correspond when their counters are
  equal and every user has, in both, no mailbox or mailboxes holding corresponding messages
  in the same order. Two replies correspond when they are the same id, the same exception, or
  lists where the second file shows \<^verbatim>\<open>get_details\<close> of the messages the first file returns,
  in the same order.
\<close>

definition as_Message :: "message_details \<Rightarrow> Message" where
  "as_Message d =
     \<lparr>message_id_M = id_key d, message_body = body_key d, message_sender = sender_key d,
      message_read = read_key d\<rparr>"

definition same_state :: "PostOffice \<Rightarrow> PostOffice2 \<Rightarrow> bool" where
  "same_state self self2 \<longleftrightarrow>
     message_id2 self2 = message_id self \<and>
     (\<forall>user. boxes2 self2 user = map_option (map as_Message) (boxes self user))"

fun same_reply :: "message_details reply \<Rightarrow> string set reply \<Rightarrow> bool" where
  "same_reply (Sent i) (Sent j) = (i = j)"
| "same_reply (Listed ds) (Listed ss) = (ss = map (\<lambda>d. get_details (as_Message d)) ds)"
| "same_reply (Raised e) (Raised e') = (e = e')"
| "same_reply _ _ = False"

section \<open>Reachable objects\<close>

text \<open>The invariant of the objects a client can reach.\<close>

definition ids_ok :: "PostOffice \<Rightarrow> bool" where
  "ids_ok self \<longleftrightarrow>
     read self = False \<and>
     (\<forall>user box. boxes self user = Some box \<longrightarrow>
        distinct (map id_key box) \<and> (\<forall>i\<in>set (map id_key box). i \<le> message_id self))"

definition ids_ok2 :: "PostOffice2 \<Rightarrow> bool" where
  "ids_ok2 self \<longleftrightarrow>
     (\<forall>user box. boxes2 self user = Some box \<longrightarrow>
        distinct (map message_id_M box) \<and> (\<forall>i\<in>set (map message_id_M box). i \<le> message_id2 self))"

section \<open>Facts about the builtins and the constructor\<close>

lemma str_contains_sublist: "str_contains s part = sublist part s"
  by (induction s) (simp_all add: sublist_Cons_right)

lemma dict_comp_lookup:
  "dict_comp usernames d u = (if u \<in> set usernames then Some [] else d u)"
  by (induction usernames arbitrary: d) auto

section \<open>The loops of \<^verbatim>\<open>read_inbox\<close>\<close>

lemma nth_filter_upt:
  "map (\<lambda>i. xs ! i) (filter (\<lambda>i. P (xs ! i)) [0..<length xs]) = filter P xs"
proof -
  have "filter P (map (\<lambda>i. xs ! i) [0..<length xs]) =
        map (\<lambda>i. xs ! i) (filter (P \<circ> (\<lambda>i. xs ! i)) [0..<length xs])"
    by (rule filter_map)
  then show ?thesis by (simp add: map_nth comp_def)
qed

lemma map_selection: "map f (selection n xs) = selection n (map f xs)"
  by (simp add: selection_def slice_to_def take_map)

lemma set_selection: "set (selection n xs) \<subseteq> set xs"
  by (auto simp add: selection_def slice_to_def dest: in_set_takeD)

lemma selection_pos: "0 < n \<Longrightarrow> selection n xs = take (nat n) xs"
  by (simp add: selection_def slice_to_def)

lemma selection_nonpos: "n \<le> 0 \<Longrightarrow> selection n xs = xs"
  by (simp add: selection_def)

lemma unread_refs_bound: "i \<in> set (unread_refs box) \<Longrightarrow> i < length box"
  by (simp add: unread_refs_def)

lemma unread_refs_nth: "map (\<lambda>i. box ! i) (unread_refs box) = filter (\<lambda>m. \<not> read_key m) box"
  unfolding unread_refs_def using nth_filter_upt [where P = "\<lambda>m. \<not> read_key m" and xs = box] by simp

lemma length_mark_loop: "length (mark_loop js mid box) = length box"
  by (induction js arbitrary: box) auto

lemma mark_loop_nth:
  "j < length box \<Longrightarrow>
   mark_loop js mid box ! j =
     (if j \<in> set js \<and> id_key (box ! j) = mid then (box ! j)\<lparr>read_key := True\<rparr> else box ! j)"
proof (induction js arbitrary: box)
  case Nil
  then show ?case by simp
next
  case (Cons i js)
  let ?box1 = "if id_key (box ! i) = mid then box[i := (box ! i)\<lparr>read_key := True\<rparr>] else box"
  have len: "j < length ?box1" using Cons.prems by simp
  have ids: "id_key (?box1 ! j) = id_key (box ! j)"
    using Cons.prems by (cases "j = i") simp_all
  show ?case
    using Cons.IH [OF len] Cons.prems ids by (cases "j = i") auto
qed

lemma mark_loop_map:
  "mark_loop [0..<length box] mid box =
     map (\<lambda>m. if id_key m = mid then m\<lparr>read_key := True\<rparr> else m) box"
  by (rule nth_equalityI) (simp_all add: length_mark_loop mark_loop_nth)

lemma read_loop_map:
  "\<forall>i\<in>set ms. i < length box \<Longrightarrow>
   read_loop ms (length box) box =
     map (\<lambda>m. if id_key m \<in> (\<lambda>i. id_key (box ! i)) ` set ms then m\<lparr>read_key := True\<rparr> else m) box"
proof (induction ms arbitrary: box)
  case Nil
  then show ?case by simp
next
  case (Cons k ms)
  let ?mid = "id_key (box ! k)"
  let ?box1 = "map (\<lambda>m. if id_key m = ?mid then m\<lparr>read_key := True\<rparr> else m) box"
  have len: "length ?box1 = length box" by simp
  have bound: "\<forall>i\<in>set ms. i < length ?box1" using Cons.prems by simp
  have ids: "(\<lambda>i. id_key (?box1 ! i)) ` set ms = (\<lambda>i. id_key (box ! i)) ` set ms"
    using Cons.prems by (intro image_cong) auto
  have "read_loop (k # ms) (length box) box = read_loop ms (length ?box1) ?box1"
    by (simp add: mark_loop_map)
  also have "\<dots> = map (\<lambda>m. if id_key m \<in> (\<lambda>i. id_key (?box1 ! i)) ` set ms
                            then m\<lparr>read_key := True\<rparr> else m) ?box1"
    by (rule Cons.IH [OF bound])
  also have "\<dots> = map (\<lambda>m. if id_key m \<in> (\<lambda>i. id_key (box ! i)) ` set (k # ms)
                            then m\<lparr>read_key := True\<rparr> else m) box"
    unfolding ids by (rule nth_equalityI) auto
  finally show ?case .
qed

lemma length_set_read_loop: "length (set_read_loop ms box) = length box"
  by (induction ms arbitrary: box) auto

lemma set_read_loop_nth:
  "j < length box \<Longrightarrow>
   set_read_loop ms box ! j = (if j \<in> set ms then (box ! j)\<lparr>message_read := True\<rparr> else box ! j)"
proof (induction ms arbitrary: box)
  case Nil
  then show ?case by simp
next
  case (Cons k ms)
  have len: "j < length (box[k := set_read True (box ! k)])" using Cons.prems by simp
  show ?case
    using Cons.IH [OF len] Cons.prems by (cases "j = k") (auto simp add: set_read_def)
qed

section \<open>Marking the selected elements of a list\<close>

lemma selection_take:
  "selection n xs = take (if 0 < n then nat n else length xs) xs"
  by (simp add: selection_def slice_to_def)

lemma mark_elements:
  assumes "inj_on key (set xs)" and "set ys \<subseteq> set xs"
  shows "map (\<lambda>m. if key m \<in> key ` set ys then f m else m) xs =
         map (\<lambda>m. if m \<in> set ys then f m else m) xs"
proof (rule map_cong [OF refl])
  fix m assume m: "m \<in> set xs"
  have "key m \<in> key ` set ys \<longleftrightarrow> m \<in> set ys"
    using assms m by (auto dest: inj_onD)
  then show "(if key m \<in> key ` set ys then f m else m) = (if m \<in> set ys then f m else m)"
    by simp
qed

lemma mark_positions:
  assumes "distinct xs" and "\<forall>i\<in>set js. i < length xs"
  shows "map (\<lambda>j. if j \<in> set js then f (xs ! j) else xs ! j) [0..<length xs] =
         map (\<lambda>m. if m \<in> set (map (\<lambda>i. xs ! i) js) then f m else m) xs"
proof (rule nth_equalityI)
  show "length (map (\<lambda>j. if j \<in> set js then f (xs ! j) else xs ! j) [0..<length xs]) =
        length (map (\<lambda>m. if m \<in> set (map (\<lambda>i. xs ! i) js) then f m else m) xs)"
    by simp
next
  fix j assume "j < length (map (\<lambda>j. if j \<in> set js then f (xs ! j) else xs ! j) [0..<length xs])"
  then have j: "j < length xs" by simp
  have "xs ! j \<in> (\<lambda>i. xs ! i) ` set js \<longleftrightarrow> j \<in> set js"
    using assms j by (auto simp add: nth_eq_iff_index_eq)
  then show "map (\<lambda>j. if j \<in> set js then f (xs ! j) else xs ! j) [0..<length xs] ! j =
             map (\<lambda>m. if m \<in> set (map (\<lambda>i. xs ! i) js) then f m else m) xs ! j"
    using j by simp
qed

lemma filter_after_mark:
  assumes "distinct xs" and "\<And>m. \<not> P (f m)"
  shows "filter P (map (\<lambda>m. if m \<in> set (take k (filter P xs)) then f m else m) xs) =
         drop k (filter P xs)"
  using assms(1)
proof (induction xs arbitrary: k)
  case Nil
  then show ?case by simp
next
  case (Cons x xs)
  have notin: "x \<notin> set xs" and dist: "distinct xs" using Cons.prems by simp_all
  show ?case
  proof (cases "P x")
    case False
    have "x \<notin> set (take k (filter P xs))"
      using notin by (auto dest: in_set_takeD)
    then show ?thesis using False Cons.IH [OF dist, of k] by simp
  next
    case True
    show ?thesis
    proof (cases k)
      case 0
      then show ?thesis by simp
    next
      case (Suc k')
      have eq: "map (\<lambda>m. if m \<in> set (x # take k' (filter P xs)) then f m else m) xs =
            map (\<lambda>m. if m \<in> set (take k' (filter P xs)) then f m else m) xs"
        using notin by (intro map_cong) auto
      have "filter P (map (\<lambda>m. if m \<in> set (take k (filter P (x # xs))) then f m else m) (x # xs)) =
            filter P (map (\<lambda>m. if m \<in> set (x # take k' (filter P xs)) then f m else m) xs)"
        using True Suc assms(2) by simp
      also have "\<dots> = filter P (map (\<lambda>m. if m \<in> set (take k' (filter P xs)) then f m else m) xs)"
        by (simp only: eq)
      also have "\<dots> = drop k' (filter P xs)"
        by (rule Cons.IH [OF dist])
      finally show ?thesis using True Suc by simp
    qed
  qed
qed

section \<open>What \<^verbatim>\<open>read_inbox\<close> returns and stores\<close>

lemma read_inbox_by_ids:
  assumes "boxes self user = Some box"
  shows "read_inbox user n self =
    (Inr (map (\<lambda>m. m\<lparr>read_key := True\<rparr>) (selection n (filter (\<lambda>m. \<not> read_key m) box))),
     self\<lparr>boxes := (boxes self)(user \<mapsto>
        map (\<lambda>m. if id_key m \<in> id_key ` set (selection n (filter (\<lambda>m. \<not> read_key m) box))
                 then m\<lparr>read_key := True\<rparr> else m) box)\<rparr>)"
proof -
  let ?sel = "selection n (unread_refs box)"
  let ?X = "selection n (filter (\<lambda>m. \<not> read_key m) box)"
  let ?box1 = "map (\<lambda>m. if id_key m \<in> id_key ` set ?X then m\<lparr>read_key := True\<rparr> else m) box"
  have bound: "\<forall>i\<in>set ?sel. i < length box"
    using set_selection [of n "unread_refs box"] unread_refs_bound by blast
  have X: "map (\<lambda>i. box ! i) ?sel = ?X"
    by (simp add: map_selection unread_refs_nth)
  have "(\<lambda>i. id_key (box ! i)) ` set ?sel = id_key ` set (map (\<lambda>i. box ! i) ?sel)"
    by (simp add: image_image)
  then have ids: "(\<lambda>i. id_key (box ! i)) ` set ?sel = id_key ` set ?X"
    by (simp only: X)
  have loop: "read_loop ?sel (length box) box = ?box1"
    using read_loop_map [OF bound] by (simp only: ids)
  have "map (\<lambda>m. ?box1 ! m) ?sel = map (\<lambda>i. (box ! i)\<lparr>read_key := True\<rparr>) ?sel"
  proof (rule map_cong [OF refl])
    fix i assume i: "i \<in> set ?sel"
    then have "i < length box" using bound by blast
    moreover have "id_key (box ! i) \<in> id_key ` set ?X"
      using i ids by blast
    ultimately show "?box1 ! i = (box ! i)\<lparr>read_key := True\<rparr>" by simp
  qed
  also have "\<dots> = map (\<lambda>m. m\<lparr>read_key := True\<rparr>) (map (\<lambda>i. box ! i) ?sel)"
    by (simp add: comp_def)
  finally have res: "map (\<lambda>m. ?box1 ! m) ?sel = map (\<lambda>m. m\<lparr>read_key := True\<rparr>) ?X"
    by (simp only: X)
  show ?thesis
    using assms by (simp add: read_inbox_def Let_def loop res)
qed

lemma read_inbox_by_element:
  assumes "boxes self user = Some box" and "distinct (map id_key box)"
  shows "read_inbox user n self =
    (Inr (map (\<lambda>m. m\<lparr>read_key := True\<rparr>) (selection n (filter (\<lambda>m. \<not> read_key m) box))),
     self\<lparr>boxes := (boxes self)(user \<mapsto>
        map (\<lambda>m. if m \<in> set (selection n (filter (\<lambda>m. \<not> read_key m) box))
                 then m\<lparr>read_key := True\<rparr> else m) box)\<rparr>)"
proof -
  have inj: "inj_on id_key (set box)" using assms(2) by (simp add: distinct_map)
  have sub: "set (selection n (filter (\<lambda>m. \<not> read_key m) box)) \<subseteq> set box"
    using set_selection [of n "filter (\<lambda>m. \<not> read_key m) box"] by auto
  show ?thesis
    by (simp only: read_inbox_by_ids [OF assms(1)] mark_elements [OF inj sub])
qed

lemma set_read_loop_map:
  "set_read_loop ms box =
     map (\<lambda>j. if j \<in> set ms then (box ! j)\<lparr>message_read := True\<rparr> else box ! j) [0..<length box]"
  by (rule nth_equalityI) (simp_all add: length_set_read_loop set_read_loop_nth)

lemma unread_refs2_bound: "i \<in> set (unread_refs2 box) \<Longrightarrow> i < length box"
  by (simp add: unread_refs2_def)

lemma unread_refs2_nth:
  "map (\<lambda>i. box ! i) (unread_refs2 box) = filter (\<lambda>m. \<not> message_read m) box"
  unfolding unread_refs2_def using nth_filter_upt [where P = "\<lambda>m. \<not> message_read m" and xs = box] by simp

lemma read_inbox2_by_element:
  assumes "boxes2 self user = Some box" and "distinct box"
  shows "read_inbox2 user n self =
    (Inr (map (\<lambda>m. get_details (m\<lparr>message_read := True\<rparr>))
            (selection n (filter (\<lambda>m. \<not> message_read m) box))),
     self\<lparr>boxes2 := (boxes2 self)(user \<mapsto>
        map (\<lambda>m. if m \<in> set (selection n (filter (\<lambda>m. \<not> message_read m) box))
                 then m\<lparr>message_read := True\<rparr> else m) box)\<rparr>)"
proof -
  let ?sel = "selection n (unread_refs2 box)"
  let ?X = "selection n (filter (\<lambda>m. \<not> message_read m) box)"
  let ?box1 = "map (\<lambda>m. if m \<in> set ?X then m\<lparr>message_read := True\<rparr> else m) box"
  have bound: "\<forall>i\<in>set ?sel. i < length box"
    using set_selection [of n "unread_refs2 box"] unread_refs2_bound by blast
  have X: "map (\<lambda>i. box ! i) ?sel = ?X"
    by (simp add: map_selection unread_refs2_nth)
  have loop: "set_read_loop ?sel box = ?box1"
    using mark_positions [OF assms(2) bound, of "\<lambda>m. m\<lparr>message_read := True\<rparr>"]
    by (simp only: set_read_loop_map X)
  have "map (\<lambda>m. get_details (?box1 ! m)) ?sel =
        map (\<lambda>i. get_details ((box ! i)\<lparr>message_read := True\<rparr>)) ?sel"
  proof (rule map_cong [OF refl])
    fix i assume i: "i \<in> set ?sel"
    then have "i < length box" using bound by blast
    moreover have "box ! i \<in> set ?X"
      using i X by (metis image_eqI set_map)
    ultimately show "get_details (?box1 ! i) = get_details ((box ! i)\<lparr>message_read := True\<rparr>)"
      by simp
  qed
  also have "\<dots> = map (\<lambda>m. get_details (m\<lparr>message_read := True\<rparr>)) (map (\<lambda>i. box ! i) ?sel)"
    by (simp add: comp_def)
  finally have res: "map (\<lambda>m. get_details (?box1 ! m)) ?sel =
                     map (\<lambda>m. get_details (m\<lparr>message_read := True\<rparr>)) ?X"
    by (simp only: X)
  show ?thesis
    using assms(1) by (simp add: read_inbox2_def Let_def loop res)
qed

section \<open>Sending, and the invariant along a run\<close>

lemma send_message_ok:
  assumes "boxes self recipient = Some box"
  shows "send_message sender recipient body urgent self =
    (Inr (message_id self + 1),
     self\<lparr>message_id := message_id self + 1,
          boxes := (boxes self)(recipient \<mapsto>
            (if urgent
             then \<lparr>id_key = message_id self + 1, body_key = body, sender_key = sender,
                   read_key = read self\<rparr> # box
             else box @ [\<lparr>id_key = message_id self + 1, body_key = body, sender_key = sender,
                          read_key = read self\<rparr>]))\<rparr>)"
  using assms by (simp add: send_message_def Let_def)

lemma send_message2_ok:
  assumes "boxes2 self recipient = Some box"
  shows "send_message2 sender recipient body urgent self =
    (Inr (message_id2 self + 1),
     self\<lparr>message_id2 := message_id2 self + 1,
          boxes2 := (boxes2 self)(recipient \<mapsto>
            (if urgent
             then \<lparr>message_id_M = message_id2 self + 1, message_body = body,
                   message_sender = sender, message_read = False\<rparr> # box
             else box @ [\<lparr>message_id_M = message_id2 self + 1, message_body = body,
                          message_sender = sender, message_read = False\<rparr>]))\<rparr>)"
  using assms by (simp add: send_message2_def Let_def Message_init_def)

lemma search_inbox_state: "snd (search_inbox user part self) = self"
  by (simp add: search_inbox_def split: option.split)

lemma search_inbox2_state: "snd (search_inbox2 user part self) = self"
  by (simp add: search_inbox2_def split: option.split)

lemma ids_ok_init: "ids_ok (init usernames)"
  by (simp add: ids_ok_def init_def dict_comp_lookup)

lemma ids_ok2_init: "ids_ok2 (init2 usernames)"
  by (simp add: ids_ok2_def init2_def dict_comp_lookup)

lemma ids_ok_send:
  assumes "ids_ok self"
  shows "ids_ok (snd (send_message sender recipient body urgent self))"
proof (cases "boxes self recipient")
  case None
  then show ?thesis using assms by (simp add: send_message_def)
next
  case (Some box)
  have "\<forall>m\<in>set box. id_key m \<noteq> message_id self + 1"
    using assms Some by (fastforce simp add: ids_ok_def)
  then show ?thesis
    using assms Some
    by (fastforce simp add: send_message_ok [OF Some] ids_ok_def)
qed

lemma ids_ok2_send:
  assumes "ids_ok2 self"
  shows "ids_ok2 (snd (send_message2 sender recipient body urgent self))"
proof (cases "boxes2 self recipient")
  case None
  then show ?thesis using assms by (simp add: send_message2_def)
next
  case (Some box)
  have "\<forall>m\<in>set box. message_id_M m \<noteq> message_id2 self + 1"
    using assms Some by (fastforce simp add: ids_ok2_def)
  then show ?thesis
    using assms Some
    by (fastforce simp add: send_message2_ok [OF Some] ids_ok2_def)
qed

lemma map_id_key_mark:
  "map id_key (map (\<lambda>m. if Q m then m\<lparr>read_key := True\<rparr> else m) box) = map id_key box"
  by (induction box) auto

lemma map_message_id_mark:
  "map message_id_M (map (\<lambda>m. if Q m then m\<lparr>message_read := True\<rparr> else m) box) =
   map message_id_M box"
  by (induction box) auto

lemma ids_ok_read:
  assumes "ids_ok self"
  shows "ids_ok (snd (read_inbox user n self))"
proof (cases "boxes self user")
  case None
  then show ?thesis using assms by (simp add: read_inbox_def)
next
  case (Some box)
  show ?thesis
    using assms Some
    by (auto simp add: read_inbox_by_ids [OF Some] ids_ok_def map_id_key_mark
        simp del: map_map set_map split: if_splits)
qed

lemma distinct_by_ids: "distinct (map message_id_M box) \<Longrightarrow> distinct box"
  by (simp add: distinct_map)

lemma ids_ok2_read:
  assumes "ids_ok2 self"
  shows "ids_ok2 (snd (read_inbox2 user n self))"
proof (cases "boxes2 self user")
  case None
  then show ?thesis using assms by (simp add: read_inbox2_def)
next
  case (Some box)
  have d: "distinct box" using assms Some by (auto simp add: ids_ok2_def intro: distinct_by_ids)
  show ?thesis
    using assms Some
    by (auto simp add: read_inbox2_by_element [OF Some d] ids_ok2_def map_message_id_mark
        simp del: map_map set_map split: if_splits)
qed

lemma ids_ok_do_call: "ids_ok self \<Longrightarrow> ids_ok (snd (do_call c self))"
  by (cases c) (simp_all add: split_def Let_def ids_ok_send ids_ok_read search_inbox_state)

lemma ids_ok2_do_call: "ids_ok2 self \<Longrightarrow> ids_ok2 (snd (do_call2 c self))"
  by (cases c) (simp_all add: split_def Let_def ids_ok2_send ids_ok2_read search_inbox2_state)

lemma run_Cons:
  "run (c # cs) self = (fst (do_call c self) # fst (run cs (snd (do_call c self))),
                        snd (run cs (snd (do_call c self))))"
  by (simp add: split_def Let_def)

lemma run2_Cons:
  "run2 (c # cs) self = (fst (do_call2 c self) # fst (run2 cs (snd (do_call2 c self))),
                         snd (run2 cs (snd (do_call2 c self))))"
  by (simp add: split_def Let_def)

lemma ids_ok_run: "ids_ok self \<Longrightarrow> ids_ok (snd (run cs self))"
  by (induction cs arbitrary: self) (simp_all add: run_Cons ids_ok_do_call del: run.simps(2))

lemma ids_ok2_run: "ids_ok2 self \<Longrightarrow> ids_ok2 (snd (run2 cs self))"
  by (induction cs arbitrary: self) (simp_all add: run2_Cons ids_ok2_do_call del: run2.simps(2))

lemma reachable_ids:
  assumes "boxes (snd (run cs (init usernames))) user = Some box"
  shows "distinct (map id_key box)" and "read (snd (run cs (init usernames))) = False"
  using ids_ok_run [OF ids_ok_init, of cs usernames] assms by (auto simp add: ids_ok_def)

lemma reachable_ids2:
  assumes "boxes2 (snd (run2 cs (init2 usernames))) user = Some box"
  shows "distinct (map message_id_M box)" and "distinct box"
  using ids_ok2_run [OF ids_ok2_init, of cs usernames] assms
  by (auto simp add: ids_ok2_def intro: distinct_by_ids)

section \<open>Message ids\<close>

lemma sent_ids_Cons:
  "sent_ids (r # rs) = (case r of Sent i \<Rightarrow> i # sent_ids rs | _ \<Rightarrow> sent_ids rs)"
  by (cases r) simp_all

lemma do_call_counter:
  "(fst (do_call c self) = Sent (message_id self + 1) \<and>
      message_id (snd (do_call c self)) = message_id self + 1) \<or>
   ((\<forall>i. fst (do_call c self) \<noteq> Sent i) \<and>
      message_id (snd (do_call c self)) = message_id self)"
proof (cases c)
  case (Send_message sender recipient body urgent)
  then show ?thesis
    by (cases "boxes self recipient") (simp_all add: send_message_def Let_def)
next
  case (Read_inbox user n)
  then show ?thesis
    by (cases "boxes self user") (simp_all add: read_inbox_def Let_def)
next
  case (Search_inbox user part)
  then show ?thesis
    by (cases "boxes self user") (simp_all add: search_inbox_def)
qed

lemma do_call2_counter:
  "(fst (do_call2 c self) = Sent (message_id2 self + 1) \<and>
      message_id2 (snd (do_call2 c self)) = message_id2 self + 1) \<or>
   ((\<forall>i. fst (do_call2 c self) \<noteq> Sent i) \<and>
      message_id2 (snd (do_call2 c self)) = message_id2 self)"
proof (cases c)
  case (Send_message sender recipient body urgent)
  then show ?thesis
    by (cases "boxes2 self recipient") (simp_all add: send_message2_def Let_def Message_init_def)
next
  case (Read_inbox user n)
  then show ?thesis
    by (cases "boxes2 self user") (simp_all add: read_inbox2_def Let_def)
next
  case (Search_inbox user part)
  then show ?thesis
    by (cases "boxes2 self user") (simp_all add: search_inbox2_def)
qed

lemma sent_ids_run:
  "message_id self \<le> message_id (snd (run cs self)) \<and>
   sent_ids (fst (run cs self)) = [message_id self + 1 .. message_id (snd (run cs self))]"
proof (induction cs arbitrary: self)
  case Nil
  then show ?case by simp
next
  case (Cons c cs)
  let ?s1 = "snd (do_call c self)"
  note IH = Cons.IH [of ?s1]
  from do_call_counter [of c self] show ?case
  proof (elim disjE conjE)
    assume r: "fst (do_call c self) = Sent (message_id self + 1)"
      and m: "message_id ?s1 = message_id self + 1"
    have "[message_id self + 1 .. message_id (snd (run cs ?s1))] =
          (message_id self + 1) # [message_id ?s1 + 1 .. message_id (snd (run cs ?s1))]"
      using IH m by (simp add: upto_rec1)
    then show ?thesis using IH r m by (simp add: run_Cons del: run.simps(2))
  next
    assume r: "\<forall>i. fst (do_call c self) \<noteq> Sent i"
      and m: "message_id ?s1 = message_id self"
    have "sent_ids (fst (do_call c self) # fst (run cs ?s1)) = sent_ids (fst (run cs ?s1))"
      using r by (cases "fst (do_call c self)") simp_all
    then show ?thesis using IH m by (simp add: run_Cons del: run.simps(2))
  qed
qed

lemma sent_ids_run2:
  "message_id2 self \<le> message_id2 (snd (run2 cs self)) \<and>
   sent_ids (fst (run2 cs self)) = [message_id2 self + 1 .. message_id2 (snd (run2 cs self))]"
proof (induction cs arbitrary: self)
  case Nil
  then show ?case by simp
next
  case (Cons c cs)
  let ?s1 = "snd (do_call2 c self)"
  note IH = Cons.IH [of ?s1]
  from do_call2_counter [of c self] show ?case
  proof (elim disjE conjE)
    assume r: "fst (do_call2 c self) = Sent (message_id2 self + 1)"
      and m: "message_id2 ?s1 = message_id2 self + 1"
    have "[message_id2 self + 1 .. message_id2 (snd (run2 cs ?s1))] =
          (message_id2 self + 1) # [message_id2 ?s1 + 1 .. message_id2 (snd (run2 cs ?s1))]"
      using IH m by (simp add: upto_rec1)
    then show ?thesis using IH r m by (simp add: run2_Cons del: run2.simps(2))
  next
    assume r: "\<forall>i. fst (do_call2 c self) \<noteq> Sent i"
      and m: "message_id2 ?s1 = message_id2 self"
    have "sent_ids (fst (do_call2 c self) # fst (run2 cs ?s1)) = sent_ids (fst (run2 cs ?s1))"
      using r by (cases "fst (do_call2 c self)") simp_all
    then show ?thesis using IH m by (simp add: run2_Cons del: run2.simps(2))
  qed
qed

lemma upto_from_one:
  assumes "ids = [1 .. k]" and "0 \<le> k"
  shows "ids = [1 .. int (length ids)] \<and> sorted_wrt (<) ids \<and> distinct ids"
  using assms by simp

text \<open>
  Claim C1. Take any list of usernames and any sequence of calls on the new object: sends to
  any recipients, urgent or not, mixed with reads, searches and calls that raise. The ids
  returned by the successful \<^verbatim>\<open>send_message\<close> calls, in call order, are exactly
  \<open>1, 2, \<dots>, k\<close>: the first is 1, they increase strictly and are pairwise distinct. This
  holds in both files.
\<close>

theorem sent_ids_increasing:
  "(let ids = sent_ids (fst (run calls (init usernames)))
    in ids = [1 .. int (length ids)] \<and> sorted_wrt (<) ids \<and> distinct ids) \<and>
   (let ids = sent_ids (fst (run2 calls (init2 usernames)))
    in ids = [1 .. int (length ids)] \<and> sorted_wrt (<) ids \<and> distinct ids)"
proof -
  have a: "message_id (init usernames) = 0" and b: "message_id2 (init2 usernames) = 0"
    by (simp_all add: init_def init2_def)
  have "sent_ids (fst (run calls (init usernames))) =
          [1 .. message_id (snd (run calls (init usernames)))]"
    and "0 \<le> message_id (snd (run calls (init usernames)))"
    using sent_ids_run [of "init usernames" calls] a by simp_all
  then have one: "let ids = sent_ids (fst (run calls (init usernames)))
    in ids = [1 .. int (length ids)] \<and> sorted_wrt (<) ids \<and> distinct ids"
    unfolding Let_def by (rule upto_from_one)
  have "sent_ids (fst (run2 calls (init2 usernames))) =
          [1 .. message_id2 (snd (run2 calls (init2 usernames)))]"
    and "0 \<le> message_id2 (snd (run2 calls (init2 usernames)))"
    using sent_ids_run2 [of "init2 usernames" calls] b by simp_all
  then have two: "let ids = sent_ids (fst (run2 calls (init2 usernames)))
    in ids = [1 .. int (length ids)] \<and> sorted_wrt (<) ids \<and> distinct ids"
    unfolding Let_def by (rule upto_from_one)
  from one two show ?thesis by simp
qed

text \<open>An instance: three successful sends among five calls return 1, 2 and 3.\<close>

theorem sent_ids_increasing_witness:
  "sent_ids (fst (run [Send_message ''a'' ''b'' ''x'' True, Send_message ''a'' ''c'' ''y'' False,
                       Read_inbox ''b'' 0, Send_message ''b'' ''a'' ''z'' False,
                       Send_message ''a'' ''b'' ''w'' True] (init [''a'', ''b'']))) = [1, 2, 3] \<and>
   sent_ids (fst (run2 [Send_message ''a'' ''b'' ''x'' True, Send_message ''a'' ''c'' ''y'' False,
                       Read_inbox ''b'' 0, Send_message ''b'' ''a'' ''z'' False,
                       Send_message ''a'' ''b'' ''w'' True] (init2 [''a'', ''b'']))) = [1, 2, 3]"
  using sent_ids_increasing [of "[Send_message ''a'' ''b'' ''x'' True, Send_message ''a'' ''c'' ''y'' False,
                       Read_inbox ''b'' 0, Send_message ''b'' ''a'' ''z'' False,
                       Send_message ''a'' ''b'' ''w'' True]" "[''a'', ''b'']"]
  by (simp add: Let_def init_def init2_def send_message_def send_message2_def read_inbox_def
      read_inbox2_def selection_def unread_refs_def unread_refs2_def Message_init_def
      set_read_def get_details_def)

section \<open>Evaluating the client\<close>

lemmas eval_defs = users_def show_example_def init_def init2_def send_message_def send_message2_def
  read_inbox_def read_inbox2_def search_inbox_def search_inbox2_def selection_def slice_to_def
  unread_refs_def unread_refs2_def Message_init_def set_read_def get_details_def Let_def
  str_int_def str_bool_def str_nat.simps

lemma sent3: "boxes (snd (run (take 3 show_example) (init users))) ''Newman'' =
  Some [\<lparr>id_key = 1, body_key = ''Hello, Newman.'', sender_key = ''Mr. Peanutbutter'', read_key = False\<rparr>,
        \<lparr>id_key = 2, body_key = ''Hello world, Newman.'', sender_key = ''Mr. Peanutbutter'', read_key = False\<rparr>,
        \<lparr>id_key = 3, body_key = ''Good bye, Newman.'', sender_key = ''Mr. Peanutbutter'', read_key = False\<rparr>]"
  by (simp add: eval_defs)

lemma full1: "fst (run show_example (init users)) = 
  [Sent 1, Sent 2, Sent 3,
   Listed [\<lparr>id_key = 1, body_key = ''Hello, Newman.'', sender_key = ''Mr. Peanutbutter'', read_key = True\<rparr>],
   Listed [\<lparr>id_key = 2, body_key = ''Hello world, Newman.'', sender_key = ''Mr. Peanutbutter'', read_key = True\<rparr>],
   Listed [\<lparr>id_key = 3, body_key = ''Good bye, Newman.'', sender_key = ''Mr. Peanutbutter'', read_key = False\<rparr>],
   Listed [\<lparr>id_key = 1, body_key = ''Hello, Newman.'', sender_key = ''Mr. Peanutbutter'', read_key = True\<rparr>,
           \<lparr>id_key = 2, body_key = ''Hello world, Newman.'', sender_key = ''Mr. Peanutbutter'', read_key = True\<rparr>],
   Listed []]"
  by (simp add: eval_defs)

lemma full2: "fst (run2 show_example (init2 users)) = 
  [Sent 1, Sent 2, Sent 3,
   Listed [{''Id: 1, Body: Hello, Newman., Sender: Mr. Peanutbutter, Read: True''}],
   Listed [{''Id: 2, Body: Hello world, Newman., Sender: Mr. Peanutbutter, Read: True''}],
   Listed [{''Id: 3, Body: Good bye, Newman., Sender: Mr. Peanutbutter, Read: False''}],
   Listed [{''Id: 1, Body: Hello, Newman., Sender: Mr. Peanutbutter, Read: True''},
           {''Id: 2, Body: Hello world, Newman., Sender: Mr. Peanutbutter, Read: True''}],
   Listed []]"
  by (simp add: eval_defs)


lemma sent3_2: "boxes2 (snd (run2 (take 3 show_example) (init2 users))) ''Newman'' =
  Some [\<lparr>message_id_M = 1, message_body = ''Hello, Newman.'', message_sender = ''Mr. Peanutbutter'', message_read = False\<rparr>,
        \<lparr>message_id_M = 2, message_body = ''Hello world, Newman.'', message_sender = ''Mr. Peanutbutter'', message_read = False\<rparr>,
        \<lparr>message_id_M = 3, message_body = ''Good bye, Newman.'', message_sender = ''Mr. Peanutbutter'', message_read = False\<rparr>]"
  by (simp add: eval_defs)

section \<open>Searching\<close>

text \<open>
  Claim C5. For a registered user, \<^verbatim>\<open>search_inbox\<close> returns, in mailbox order, exactly the
  messages whose body contains the search string as a contiguous run of characters
  (\<open>sublist\<close>, compared character by character, hence case-sensitive), read or unread alike.
  The empty string matches every message. The object is returned unchanged, so no read flag
  changes, and a repeated call returns the same result. In the second file the result lists
  \<^verbatim>\<open>get_details\<close> of those messages.
\<close>

theorem search_inbox_spec:
  "(boxes self user = Some box \<longrightarrow>
      search_inbox user part self = (Inr (filter (\<lambda>m. sublist part (body_key m)) box), self) \<and>
      search_inbox user [] self = (Inr box, self) \<and>
      search_inbox user part (snd (search_inbox user part self)) = search_inbox user part self) \<and>
   (boxes2 self2 user = Some box2 \<longrightarrow>
      search_inbox2 user part self2 =
        (Inr (map get_details (filter (\<lambda>m. sublist part (message_body m)) box2)), self2) \<and>
      search_inbox2 user [] self2 = (Inr (map get_details box2), self2) \<and>
      search_inbox2 user part (snd (search_inbox2 user part self2)) = search_inbox2 user part self2)"
  by (simp add: search_inbox_def search_inbox2_def str_contains_sublist)

text \<open>An instance, after the three sends of \<^verbatim>\<open>show_example\<close>: searching \<^verbatim>\<open>"Good"\<close>
  returns the third message only, still unread.\<close>

theorem search_inbox_spec_witness:
  "search_inbox ''Newman'' ''Good'' (snd (run (take 3 show_example) (init users))) =
     (Inr [\<lparr>id_key = 3, body_key = ''Good bye, Newman.'', sender_key = ''Mr. Peanutbutter'',
            read_key = False\<rparr>],
      snd (run (take 3 show_example) (init users))) \<and>
   search_inbox2 ''Newman'' ''Good'' (snd (run2 (take 3 show_example) (init2 users))) =
     (Inr [{''Id: 3, Body: Good bye, Newman., Sender: Mr. Peanutbutter, Read: False''}],
      snd (run2 (take 3 show_example) (init2 users)))"
proof -
  note spec = search_inbox_spec [of "snd (run (take 3 show_example) (init users))" "''Newman''" _
      "''Good''" "snd (run2 (take 3 show_example) (init2 users))", unfolded sent3 sent3_2]
  have one: "search_inbox ''Newman'' ''Good'' (snd (run (take 3 show_example) (init users))) =
     (Inr [\<lparr>id_key = 3, body_key = ''Good bye, Newman.'', sender_key = ''Mr. Peanutbutter'',
            read_key = False\<rparr>],
      snd (run (take 3 show_example) (init users)))"
    using spec by (simp add: sublist_code)
  have two: "search_inbox2 ''Newman'' ''Good'' (snd (run2 (take 3 show_example) (init2 users))) =
     (Inr [{''Id: 3, Body: Good bye, Newman., Sender: Mr. Peanutbutter, Read: False''}],
      snd (run2 (take 3 show_example) (init2 users)))"
    using spec by (simp add: sublist_code get_details_def str_int_def str_bool_def str_nat.simps)
  from one two show ?thesis by (rule conjI)
qed

section \<open>What each operation leaves alone\<close>

lemma map_mark_unchanged:
  assumes "\<And>m. f (g m) = f m"
  shows "map f (map (\<lambda>m. if Q m then g m else m) xs) = map f xs"
  using assms by (induction xs) auto

lemma set_read_loop_frame:
  "map (\<lambda>m. (message_id_M m, message_body m, message_sender m)) (set_read_loop ms box) =
   map (\<lambda>m. (message_id_M m, message_body m, message_sender m)) box"
proof (rule nth_equalityI)
  show "length (map (\<lambda>m. (message_id_M m, message_body m, message_sender m)) (set_read_loop ms box)) =
        length (map (\<lambda>m. (message_id_M m, message_body m, message_sender m)) box)"
    by (simp add: length_set_read_loop)
next
  fix j
  assume "j < length (map (\<lambda>m. (message_id_M m, message_body m, message_sender m))
                        (set_read_loop ms box))"
  then have j: "j < length box" by (simp add: length_set_read_loop)
  then show "map (\<lambda>m. (message_id_M m, message_body m, message_sender m)) (set_read_loop ms box) ! j =
             map (\<lambda>m. (message_id_M m, message_body m, message_sender m)) box ! j"
    by (simp add: length_set_read_loop set_read_loop_nth)
qed

text \<open>
  Claim C10. A successful \<^verbatim>\<open>send_message\<close> leaves every mailbox but the recipient's as it
  was and adds one to the counter. A successful \<^verbatim>\<open>read_inbox\<close> leaves every other mailbox
  and the counter as they were, and in the user's mailbox the sequence of ids, bodies and
  senders is the same as before: nothing is added, removed or reordered, only read flags can
  differ. \<^verbatim>\<open>search_inbox\<close> returns the object unchanged. This holds in both files, from any
  state of the object.
\<close>

theorem operations_frame:
  "(boxes self recipient = Some box \<longrightarrow>
      (\<forall>u. u \<noteq> recipient \<longrightarrow>
         boxes (snd (send_message sender recipient body urgent self)) u = boxes self u) \<and>
      message_id (snd (send_message sender recipient body urgent self)) = message_id self + 1 \<and>
      read (snd (send_message sender recipient body urgent self)) = read self) \<and>
   (boxes self user = Some ubox \<longrightarrow>
      (\<forall>u. u \<noteq> user \<longrightarrow> boxes (snd (read_inbox user n self)) u = boxes self u) \<and>
      message_id (snd (read_inbox user n self)) = message_id self \<and>
      read (snd (read_inbox user n self)) = read self \<and>
      map_option (map (\<lambda>m. (id_key m, body_key m, sender_key m)))
        (boxes (snd (read_inbox user n self)) user) =
      Some (map (\<lambda>m. (id_key m, body_key m, sender_key m)) ubox)) \<and>
   snd (search_inbox user part self) = self \<and>
   (boxes2 self2 recipient = Some box2 \<longrightarrow>
      (\<forall>u. u \<noteq> recipient \<longrightarrow>
         boxes2 (snd (send_message2 sender recipient body urgent self2)) u = boxes2 self2 u) \<and>
      message_id2 (snd (send_message2 sender recipient body urgent self2)) = message_id2 self2 + 1) \<and>
   (boxes2 self2 user = Some ubox2 \<longrightarrow>
      (\<forall>u. u \<noteq> user \<longrightarrow> boxes2 (snd (read_inbox2 user n self2)) u = boxes2 self2 u) \<and>
      message_id2 (snd (read_inbox2 user n self2)) = message_id2 self2 \<and>
      map_option (map (\<lambda>m. (message_id_M m, message_body m, message_sender m)))
        (boxes2 (snd (read_inbox2 user n self2)) user) =
      Some (map (\<lambda>m. (message_id_M m, message_body m, message_sender m)) ubox2)) \<and>
   snd (search_inbox2 user part self2) = self2"
proof -
  have send1: "boxes self recipient = Some box \<longrightarrow>
      (\<forall>u. u \<noteq> recipient \<longrightarrow>
         boxes (snd (send_message sender recipient body urgent self)) u = boxes self u) \<and>
      message_id (snd (send_message sender recipient body urgent self)) = message_id self + 1 \<and>
      read (snd (send_message sender recipient body urgent self)) = read self"
    by (simp add: send_message_ok)
  have read1: "boxes self user = Some ubox \<longrightarrow>
      (\<forall>u. u \<noteq> user \<longrightarrow> boxes (snd (read_inbox user n self)) u = boxes self u) \<and>
      message_id (snd (read_inbox user n self)) = message_id self \<and>
      read (snd (read_inbox user n self)) = read self \<and>
      map_option (map (\<lambda>m. (id_key m, body_key m, sender_key m)))
        (boxes (snd (read_inbox user n self)) user) =
      Some (map (\<lambda>m. (id_key m, body_key m, sender_key m)) ubox)"
    by (simp add: read_inbox_by_ids map_mark_unchanged del: map_map)
  have send2: "boxes2 self2 recipient = Some box2 \<longrightarrow>
      (\<forall>u. u \<noteq> recipient \<longrightarrow>
         boxes2 (snd (send_message2 sender recipient body urgent self2)) u = boxes2 self2 u) \<and>
      message_id2 (snd (send_message2 sender recipient body urgent self2)) = message_id2 self2 + 1"
    by (simp add: send_message2_ok)
  have read2: "boxes2 self2 user = Some ubox2 \<longrightarrow>
      (\<forall>u. u \<noteq> user \<longrightarrow> boxes2 (snd (read_inbox2 user n self2)) u = boxes2 self2 u) \<and>
      message_id2 (snd (read_inbox2 user n self2)) = message_id2 self2 \<and>
      map_option (map (\<lambda>m. (message_id_M m, message_body m, message_sender m)))
        (boxes2 (snd (read_inbox2 user n self2)) user) =
      Some (map (\<lambda>m. (message_id_M m, message_body m, message_sender m)) ubox2)"
    by (simp add: read_inbox2_def Let_def set_read_loop_frame del: map_map)
  show ?thesis
    using send1 read1 send2 read2
    by (simp only: search_inbox_state search_inbox2_state simp_thms)
qed

text \<open>An instance, after the three sends of \<^verbatim>\<open>show_example\<close>.\<close>

theorem operations_frame_witness:
  "boxes (snd (send_message ''Newman'' ''Mr. Peanutbutter'' ''Hi'' True
       (snd (run (take 3 show_example) (init users))))) ''Newman'' =
     boxes (snd (run (take 3 show_example) (init users))) ''Newman'' \<and>
   message_id (snd (send_message ''Newman'' ''Mr. Peanutbutter'' ''Hi'' True
       (snd (run (take 3 show_example) (init users))))) = 4 \<and>
   boxes (snd (read_inbox ''Newman'' 1 (snd (run (take 3 show_example) (init users)))))
       ''Mr. Peanutbutter'' = Some [] \<and>
   message_id (snd (read_inbox ''Newman'' 1 (snd (run (take 3 show_example) (init users))))) = 3 \<and>
   boxes2 (snd (send_message2 ''Newman'' ''Mr. Peanutbutter'' ''Hi'' True
       (snd (run2 (take 3 show_example) (init2 users))))) ''Newman'' =
     boxes2 (snd (run2 (take 3 show_example) (init2 users))) ''Newman'' \<and>
   boxes2 (snd (read_inbox2 ''Newman'' 1 (snd (run2 (take 3 show_example) (init2 users)))))
       ''Mr. Peanutbutter'' = Some [] \<and>
   message_id2 (snd (read_inbox2 ''Newman'' 1 (snd (run2 (take 3 show_example) (init2 users))))) = 3"
  using operations_frame [of "snd (run (take 3 show_example) (init users))" "''Mr. Peanutbutter''"
      "[]" "''Newman''" "''Hi''" True "''Newman''"
      "[\<lparr>id_key = 1, body_key = ''Hello, Newman.'', sender_key = ''Mr. Peanutbutter'',
          read_key = False\<rparr>,
        \<lparr>id_key = 2, body_key = ''Hello world, Newman.'', sender_key = ''Mr. Peanutbutter'',
          read_key = False\<rparr>,
        \<lparr>id_key = 3, body_key = ''Good bye, Newman.'', sender_key = ''Mr. Peanutbutter'',
          read_key = False\<rparr>]"
      1 "''llo''" "snd (run2 (take 3 show_example) (init2 users))" "[]"
      "[\<lparr>message_id_M = 1, message_body = ''Hello, Newman.'',
          message_sender = ''Mr. Peanutbutter'', message_read = False\<rparr>,
        \<lparr>message_id_M = 2, message_body = ''Hello world, Newman.'',
          message_sender = ''Mr. Peanutbutter'', message_read = False\<rparr>,
        \<lparr>message_id_M = 3, message_body = ''Good bye, Newman.'',
          message_sender = ''Mr. Peanutbutter'', message_read = False\<rparr>]"]
  by (simp add: eval_defs)

section \<open>Reading twice\<close>

lemma mark_read_idem: "read_key m \<Longrightarrow> m\<lparr>read_key := True\<rparr> = m"
  by (cases m) simp

lemma mark_read_idem2: "message_read m \<Longrightarrow> m\<lparr>message_read := True\<rparr> = m"
  by (cases m) simp

lemma mark_all_unread:
  "map (\<lambda>m. if m \<in> set (filter (\<lambda>m. \<not> read_key m) box) then m\<lparr>read_key := True\<rparr> else m) box =
   map (\<lambda>m. m\<lparr>read_key := True\<rparr>) box"
  by (rule map_cong [OF refl]) (auto simp add: mark_read_idem)

lemma mark_all_unread2:
  "map (\<lambda>m. if m \<in> set (filter (\<lambda>m. \<not> message_read m) box) then m\<lparr>message_read := True\<rparr> else m) box =
   map (\<lambda>m. m\<lparr>message_read := True\<rparr>) box"
  by (rule map_cong [OF refl]) (auto simp add: mark_read_idem2)

lemma unread_after_read:
  assumes "distinct box"
  shows "filter (\<lambda>m. \<not> read_key m)
           (map (\<lambda>m. if m \<in> set (selection n (filter (\<lambda>m. \<not> read_key m) box))
                    then m\<lparr>read_key := True\<rparr> else m) box) =
         drop (if 0 < n then nat n else length (filter (\<lambda>m. \<not> read_key m) box))
           (filter (\<lambda>m. \<not> read_key m) box)"
  unfolding selection_take
  by (rule filter_after_mark [OF assms]) simp

lemma unread_after_read2:
  assumes "distinct box"
  shows "filter (\<lambda>m. \<not> message_read m)
           (map (\<lambda>m. if m \<in> set (selection n (filter (\<lambda>m. \<not> message_read m) box))
                    then m\<lparr>message_read := True\<rparr> else m) box) =
         drop (if 0 < n then nat n else length (filter (\<lambda>m. \<not> message_read m) box))
           (filter (\<lambda>m. \<not> message_read m) box)"
  unfolding selection_take
  by (rule filter_after_mark [OF assms]) simp

text \<open>Two reads in a row, when the ids of the mailbox are distinct.\<close>

lemma read_twice:
  assumes "boxes self user = Some box" and "distinct (map id_key box)"
  shows "fst (read_inbox user k (snd (read_inbox user n self))) =
         Inr (map (\<lambda>m. m\<lparr>read_key := True\<rparr>)
                (selection k (drop (if 0 < n then nat n else length (filter (\<lambda>m. \<not> read_key m) box))
                   (filter (\<lambda>m. \<not> read_key m) box))))"
proof -
  let ?box1 = "map (\<lambda>m. if m \<in> set (selection n (filter (\<lambda>m. \<not> read_key m) box))
                          then m\<lparr>read_key := True\<rparr> else m) box"
  have d: "distinct box" using assms(2) by (simp add: distinct_map)
  have s1: "boxes (snd (read_inbox user n self)) user = Some ?box1"
    by (simp add: read_inbox_by_element [OF assms])
  show ?thesis
    by (simp add: read_inbox_by_ids [OF s1] unread_after_read [OF d])
qed

lemma read_twice2:
  assumes "boxes2 self user = Some box" and "distinct (map message_id_M box)"
  shows "fst (read_inbox2 user k (snd (read_inbox2 user n self))) =
         Inr (map (\<lambda>m. get_details (m\<lparr>message_read := True\<rparr>))
                (selection k (drop (if 0 < n then nat n else length (filter (\<lambda>m. \<not> message_read m) box))
                   (filter (\<lambda>m. \<not> message_read m) box))))"
proof -
  let ?box1 = "map (\<lambda>m. if m \<in> set (selection n (filter (\<lambda>m. \<not> message_read m) box))
                          then m\<lparr>message_read := True\<rparr> else m) box"
  have d: "distinct box" using assms(2) by (rule distinct_by_ids)
  have s1: "boxes2 (snd (read_inbox2 user n self)) user = Some ?box1"
    by (simp add: read_inbox2_by_element [OF assms(1) d])
  have "distinct (map message_id_M ?box1)"
    using assms(2) by (simp only: map_message_id_mark)
  then have d1: "distinct ?box1" by (rule distinct_by_ids)
  show ?thesis
    by (simp add: read_inbox2_by_element [OF s1 d1] unread_after_read2 [OF d])
qed

lemma take_all_drop: "take k xs = xs \<Longrightarrow> drop k xs = []"
  by (simp add: take_all_iff)

lemma selection_Nil: "selection n [] = []"
  by (simp add: selection_def slice_to_def)

lemma selection_all_rest:
  assumes "selection n xs = xs"
  shows "selection k (drop (if 0 < n then nat n else length xs) xs) = []"
proof (cases "0 < n")
  case True
  then have "take (nat n) xs = xs" using assms by (simp add: selection_pos)
  then have "drop (nat n) xs = []" by (rule take_all_drop)
  then show ?thesis using True by (simp add: selection_Nil)
next
  case False
  then show ?thesis by (simp add: selection_Nil)
qed

lemma marked_stored:
  "set (map f (selection n (filter P xs))) \<subseteq>
   set (map (\<lambda>m. if m \<in> set (selection n (filter P xs)) then f m else m) xs)"
proof
  fix y assume "y \<in> set (map f (selection n (filter P xs)))"
  then obtain m where m: "m \<in> set (selection n (filter P xs))" and y: "y = f m" by auto
  have "m \<in> set xs" using m set_selection [of n "filter P xs"] by auto
  then have "(if m \<in> set (selection n (filter P xs)) then f m else m) \<in>
              (\<lambda>m. if m \<in> set (selection n (filter P xs)) then f m else m) ` set xs"
    by (rule imageI)
  then show "y \<in> set (map (\<lambda>m. if m \<in> set (selection n (filter P xs)) then f m else m) xs)"
    using m y by simp
qed

section \<open>The read limit\<close>

text \<open>
  Claim C4. Take any object a client can reach and a registered user, with mailbox \<open>box\<close>.
  With a limit \<open>n > 0\<close>, \<^verbatim>\<open>read_inbox\<close> returns the first \<open>n\<close> unread messages in mailbox
  order (each shown as read), marks exactly those messages read in the mailbox and leaves the
  rest of the mailbox as it was; a following \<^verbatim>\<open>read_inbox(user, 0)\<close> returns the remaining
  unread messages. With \<open>n \<le> 0\<close> it returns all unread messages and afterwards every message
  of the mailbox is read. This holds in both files.
\<close>

theorem read_limit:
  "(boxes (snd (run calls (init usernames))) user = Some box \<longrightarrow>
      (0 < n \<longrightarrow>
         read_inbox user n (snd (run calls (init usernames))) =
           (Inr (map (\<lambda>m. m\<lparr>read_key := True\<rparr>) (take (nat n) (filter (\<lambda>m. \<not> read_key m) box))),
            (snd (run calls (init usernames)))
              \<lparr>boxes := (boxes (snd (run calls (init usernames))))(user \<mapsto>
                 map (\<lambda>m. if m \<in> set (take (nat n) (filter (\<lambda>m. \<not> read_key m) box))
                          then m\<lparr>read_key := True\<rparr> else m) box)\<rparr>) \<and>
         fst (read_inbox user 0 (snd (read_inbox user n (snd (run calls (init usernames)))))) =
           Inr (map (\<lambda>m. m\<lparr>read_key := True\<rparr>) (drop (nat n) (filter (\<lambda>m. \<not> read_key m) box)))) \<and>
      (n \<le> 0 \<longrightarrow>
         read_inbox user n (snd (run calls (init usernames))) =
           (Inr (map (\<lambda>m. m\<lparr>read_key := True\<rparr>) (filter (\<lambda>m. \<not> read_key m) box)),
            (snd (run calls (init usernames)))
              \<lparr>boxes := (boxes (snd (run calls (init usernames))))(user \<mapsto>
                 map (\<lambda>m. m\<lparr>read_key := True\<rparr>) box)\<rparr>))) \<and>
   (boxes2 (snd (run2 calls (init2 usernames))) user = Some box2 \<longrightarrow>
      (0 < n \<longrightarrow>
         read_inbox2 user n (snd (run2 calls (init2 usernames))) =
           (Inr (map (\<lambda>m. get_details (m\<lparr>message_read := True\<rparr>))
                   (take (nat n) (filter (\<lambda>m. \<not> message_read m) box2))),
            (snd (run2 calls (init2 usernames)))
              \<lparr>boxes2 := (boxes2 (snd (run2 calls (init2 usernames))))(user \<mapsto>
                 map (\<lambda>m. if m \<in> set (take (nat n) (filter (\<lambda>m. \<not> message_read m) box2))
                          then m\<lparr>message_read := True\<rparr> else m) box2)\<rparr>) \<and>
         fst (read_inbox2 user 0 (snd (read_inbox2 user n (snd (run2 calls (init2 usernames)))))) =
           Inr (map (\<lambda>m. get_details (m\<lparr>message_read := True\<rparr>))
                  (drop (nat n) (filter (\<lambda>m. \<not> message_read m) box2)))) \<and>
      (n \<le> 0 \<longrightarrow>
         read_inbox2 user n (snd (run2 calls (init2 usernames))) =
           (Inr (map (\<lambda>m. get_details (m\<lparr>message_read := True\<rparr>))
                   (filter (\<lambda>m. \<not> message_read m) box2)),
            (snd (run2 calls (init2 usernames)))
              \<lparr>boxes2 := (boxes2 (snd (run2 calls (init2 usernames))))(user \<mapsto>
                 map (\<lambda>m. m\<lparr>message_read := True\<rparr>) box2)\<rparr>)))"
proof (intro conjI impI)
  assume b: "boxes (snd (run calls (init usernames))) user = Some box"
  note d = reachable_ids(1) [OF b]
  {
    assume n: "0 < n"
    show "read_inbox user n (snd (run calls (init usernames))) =
           (Inr (map (\<lambda>m. m\<lparr>read_key := True\<rparr>) (take (nat n) (filter (\<lambda>m. \<not> read_key m) box))),
            (snd (run calls (init usernames)))
              \<lparr>boxes := (boxes (snd (run calls (init usernames))))(user \<mapsto>
                 map (\<lambda>m. if m \<in> set (take (nat n) (filter (\<lambda>m. \<not> read_key m) box))
                          then m\<lparr>read_key := True\<rparr> else m) box)\<rparr>)"
      using read_inbox_by_element [OF b d, of n] n by (simp only: selection_pos)
    show "fst (read_inbox user 0 (snd (read_inbox user n (snd (run calls (init usernames)))))) =
           Inr (map (\<lambda>m. m\<lparr>read_key := True\<rparr>) (drop (nat n) (filter (\<lambda>m. \<not> read_key m) box)))"
      using read_twice [OF b d, of 0 n] n by (simp add: selection_nonpos)
  }
  {
    assume n: "n \<le> 0"
    show "read_inbox user n (snd (run calls (init usernames))) =
           (Inr (map (\<lambda>m. m\<lparr>read_key := True\<rparr>) (filter (\<lambda>m. \<not> read_key m) box)),
            (snd (run calls (init usernames)))
              \<lparr>boxes := (boxes (snd (run calls (init usernames))))(user \<mapsto>
                 map (\<lambda>m. m\<lparr>read_key := True\<rparr>) box)\<rparr>)"
      using read_inbox_by_element [OF b d, of n] n
      by (simp only: selection_nonpos mark_all_unread)
  }
next
  assume b: "boxes2 (snd (run2 calls (init2 usernames))) user = Some box2"
  note di = reachable_ids2(1) [OF b]
  note d = reachable_ids2(2) [OF b]
  {
    assume n: "0 < n"
    show "read_inbox2 user n (snd (run2 calls (init2 usernames))) =
           (Inr (map (\<lambda>m. get_details (m\<lparr>message_read := True\<rparr>))
                   (take (nat n) (filter (\<lambda>m. \<not> message_read m) box2))),
            (snd (run2 calls (init2 usernames)))
              \<lparr>boxes2 := (boxes2 (snd (run2 calls (init2 usernames))))(user \<mapsto>
                 map (\<lambda>m. if m \<in> set (take (nat n) (filter (\<lambda>m. \<not> message_read m) box2))
                          then m\<lparr>message_read := True\<rparr> else m) box2)\<rparr>)"
      using read_inbox2_by_element [OF b d, of n] n by (simp only: selection_pos)
    show "fst (read_inbox2 user 0 (snd (read_inbox2 user n (snd (run2 calls (init2 usernames)))))) =
           Inr (map (\<lambda>m. get_details (m\<lparr>message_read := True\<rparr>))
                  (drop (nat n) (filter (\<lambda>m. \<not> message_read m) box2)))"
      using read_twice2 [OF b di, of 0 n] n by (simp add: selection_nonpos)
  }
  {
    assume n: "n \<le> 0"
    show "read_inbox2 user n (snd (run2 calls (init2 usernames))) =
           (Inr (map (\<lambda>m. get_details (m\<lparr>message_read := True\<rparr>))
                   (filter (\<lambda>m. \<not> message_read m) box2)),
            (snd (run2 calls (init2 usernames)))
              \<lparr>boxes2 := (boxes2 (snd (run2 calls (init2 usernames))))(user \<mapsto>
                 map (\<lambda>m. m\<lparr>message_read := True\<rparr>) box2)\<rparr>)"
      using read_inbox2_by_element [OF b d, of n] n
      by (simp only: selection_nonpos mark_all_unread2)
  }
qed

text \<open>An instance: after the three sends of \<^verbatim>\<open>show_example\<close> the unread messages are
  \<open>[A, B, C]\<close>; \<^verbatim>\<open>read_inbox("Newman", 1)\<close> returns \<open>A\<close> and marks \<open>A\<close> only, and
  \<^verbatim>\<open>read_inbox("Newman", 0)\<close> then returns \<open>[B, C]\<close>.\<close>

theorem read_limit_witness:
  "fst (read_inbox ''Newman'' 1 (snd (run (take 3 show_example) (init users)))) =
     Inr [\<lparr>id_key = 1, body_key = ''Hello, Newman.'', sender_key = ''Mr. Peanutbutter'',
            read_key = True\<rparr>] \<and>
   boxes (snd (read_inbox ''Newman'' 1 (snd (run (take 3 show_example) (init users))))) ''Newman'' =
     Some [\<lparr>id_key = 1, body_key = ''Hello, Newman.'', sender_key = ''Mr. Peanutbutter'',
             read_key = True\<rparr>,
           \<lparr>id_key = 2, body_key = ''Hello world, Newman.'', sender_key = ''Mr. Peanutbutter'',
             read_key = False\<rparr>,
           \<lparr>id_key = 3, body_key = ''Good bye, Newman.'', sender_key = ''Mr. Peanutbutter'',
             read_key = False\<rparr>] \<and>
   fst (read_inbox ''Newman'' 0
          (snd (read_inbox ''Newman'' 1 (snd (run (take 3 show_example) (init users)))))) =
     Inr [\<lparr>id_key = 2, body_key = ''Hello world, Newman.'', sender_key = ''Mr. Peanutbutter'',
            read_key = True\<rparr>,
          \<lparr>id_key = 3, body_key = ''Good bye, Newman.'', sender_key = ''Mr. Peanutbutter'',
            read_key = True\<rparr>] \<and>
   fst (read_inbox2 ''Newman'' 1 (snd (run2 (take 3 show_example) (init2 users)))) =
     Inr [{''Id: 1, Body: Hello, Newman., Sender: Mr. Peanutbutter, Read: True''}] \<and>
   fst (read_inbox2 ''Newman'' 0
          (snd (read_inbox2 ''Newman'' 1 (snd (run2 (take 3 show_example) (init2 users)))))) =
     Inr [{''Id: 2, Body: Hello world, Newman., Sender: Mr. Peanutbutter, Read: True''},
          {''Id: 3, Body: Good bye, Newman., Sender: Mr. Peanutbutter, Read: True''}]"
  using read_limit [of "take 3 show_example" users "''Newman''"
      "[\<lparr>id_key = 1, body_key = ''Hello, Newman.'', sender_key = ''Mr. Peanutbutter'',
          read_key = False\<rparr>,
        \<lparr>id_key = 2, body_key = ''Hello world, Newman.'', sender_key = ''Mr. Peanutbutter'',
          read_key = False\<rparr>,
        \<lparr>id_key = 3, body_key = ''Good bye, Newman.'', sender_key = ''Mr. Peanutbutter'',
          read_key = False\<rparr>]"
      1
      "[\<lparr>message_id_M = 1, message_body = ''Hello, Newman.'',
          message_sender = ''Mr. Peanutbutter'', message_read = False\<rparr>,
        \<lparr>message_id_M = 2, message_body = ''Hello world, Newman.'',
          message_sender = ''Mr. Peanutbutter'', message_read = False\<rparr>,
        \<lparr>message_id_M = 3, message_body = ''Good bye, Newman.'',
          message_sender = ''Mr. Peanutbutter'', message_read = False\<rparr>]"]
  by (simp add: eval_defs)

section \<open>The destructive read\<close>

text \<open>
  Claim C2. Take any object a client can reach and a registered user, with mailbox \<open>box\<close>;
  let \<open>X\<close> be the messages \<^verbatim>\<open>read_inbox\<close> selects (the unread ones, cut at the limit).
  The call returns the messages of \<open>X\<close> with their read flag set (in the second file, their
  \<^verbatim>\<open>get_details\<close> with the flag set), so every snapshot shows \<^verbatim>\<open>read = True\<close>; each returned
  message, as returned, is an element of the stored mailbox after the call; and when all
  unread messages were selected, the same call again returns the empty list. In particular
  \<^verbatim>\<open>read_inbox(user, 0)\<close> twice in a row returns the empty list the second time.
\<close>

theorem destructive_read:
  "(let self = snd (run calls (init usernames));
        X = selection n (filter (\<lambda>m. \<not> read_key m) box);
        box1 = map (\<lambda>m. if m \<in> set X then m\<lparr>read_key := True\<rparr> else m) box
    in boxes self user = Some box \<longrightarrow>
         read_inbox user n self =
           (Inr (map (\<lambda>m. m\<lparr>read_key := True\<rparr>) X), self\<lparr>boxes := (boxes self)(user \<mapsto> box1)\<rparr>) \<and>
         set (map (\<lambda>m. m\<lparr>read_key := True\<rparr>) X) \<subseteq> set box1 \<and>
         (\<forall>m\<in>set (map (\<lambda>m. m\<lparr>read_key := True\<rparr>) X). read_key m) \<and>
         (X = filter (\<lambda>m. \<not> read_key m) box \<longrightarrow>
            fst (read_inbox user n (snd (read_inbox user n self))) = Inr []) \<and>
         fst (read_inbox user 0 (snd (read_inbox user 0 self))) = Inr []) \<and>
   (let self = snd (run2 calls (init2 usernames));
        X = selection n (filter (\<lambda>m. \<not> message_read m) box2);
        box1 = map (\<lambda>m. if m \<in> set X then m\<lparr>message_read := True\<rparr> else m) box2
    in boxes2 self user = Some box2 \<longrightarrow>
         read_inbox2 user n self =
           (Inr (map (\<lambda>m. get_details (m\<lparr>message_read := True\<rparr>)) X),
            self\<lparr>boxes2 := (boxes2 self)(user \<mapsto> box1)\<rparr>) \<and>
         set (map (\<lambda>m. m\<lparr>message_read := True\<rparr>) X) \<subseteq> set box1 \<and>
         (\<forall>m\<in>set (map (\<lambda>m. m\<lparr>message_read := True\<rparr>) X). message_read m) \<and>
         (X = filter (\<lambda>m. \<not> message_read m) box2 \<longrightarrow>
            fst (read_inbox2 user n (snd (read_inbox2 user n self))) = Inr []) \<and>
         fst (read_inbox2 user 0 (snd (read_inbox2 user 0 self))) = Inr [])"
proof -
  have one: "boxes (snd (run calls (init usernames))) user = Some box \<longrightarrow>
         read_inbox user n (snd (run calls (init usernames))) =
           (Inr (map (\<lambda>m. m\<lparr>read_key := True\<rparr>) (selection n (filter (\<lambda>m. \<not> read_key m) box))),
            (snd (run calls (init usernames)))\<lparr>boxes := (boxes (snd (run calls (init usernames))))(user \<mapsto>
              map (\<lambda>m. if m \<in> set (selection n (filter (\<lambda>m. \<not> read_key m) box))
                       then m\<lparr>read_key := True\<rparr> else m) box)\<rparr>) \<and>
         (selection n (filter (\<lambda>m. \<not> read_key m) box) = filter (\<lambda>m. \<not> read_key m) box \<longrightarrow>
            fst (read_inbox user n (snd (read_inbox user n (snd (run calls (init usernames)))))) = Inr []) \<and>
         fst (read_inbox user 0 (snd (read_inbox user 0 (snd (run calls (init usernames)))))) = Inr []"
  proof (intro impI conjI)
    assume b: "boxes (snd (run calls (init usernames))) user = Some box"
    note d = reachable_ids(1) [OF b]
    show "read_inbox user n (snd (run calls (init usernames))) =
           (Inr (map (\<lambda>m. m\<lparr>read_key := True\<rparr>) (selection n (filter (\<lambda>m. \<not> read_key m) box))),
            (snd (run calls (init usernames)))\<lparr>boxes := (boxes (snd (run calls (init usernames))))(user \<mapsto>
              map (\<lambda>m. if m \<in> set (selection n (filter (\<lambda>m. \<not> read_key m) box))
                       then m\<lparr>read_key := True\<rparr> else m) box)\<rparr>)"
      by (rule read_inbox_by_element [OF b d])
    show "fst (read_inbox user 0 (snd (read_inbox user 0 (snd (run calls (init usernames)))))) = Inr []"
      by (simp add: read_twice [OF b d] selection_Nil)
    assume "selection n (filter (\<lambda>m. \<not> read_key m) box) = filter (\<lambda>m. \<not> read_key m) box"
    then show "fst (read_inbox user n (snd (read_inbox user n (snd (run calls (init usernames)))))) = Inr []"
      by (simp only: read_twice [OF b d] selection_all_rest) simp
  qed
  have two: "boxes2 (snd (run2 calls (init2 usernames))) user = Some box2 \<longrightarrow>
         read_inbox2 user n (snd (run2 calls (init2 usernames))) =
           (Inr (map (\<lambda>m. get_details (m\<lparr>message_read := True\<rparr>))
                   (selection n (filter (\<lambda>m. \<not> message_read m) box2))),
            (snd (run2 calls (init2 usernames)))\<lparr>boxes2 := (boxes2 (snd (run2 calls (init2 usernames))))(user \<mapsto>
              map (\<lambda>m. if m \<in> set (selection n (filter (\<lambda>m. \<not> message_read m) box2))
                       then m\<lparr>message_read := True\<rparr> else m) box2)\<rparr>) \<and>
         (selection n (filter (\<lambda>m. \<not> message_read m) box2) = filter (\<lambda>m. \<not> message_read m) box2 \<longrightarrow>
            fst (read_inbox2 user n (snd (read_inbox2 user n (snd (run2 calls (init2 usernames)))))) = Inr []) \<and>
         fst (read_inbox2 user 0 (snd (read_inbox2 user 0 (snd (run2 calls (init2 usernames)))))) = Inr []"
  proof (intro impI conjI)
    assume b: "boxes2 (snd (run2 calls (init2 usernames))) user = Some box2"
    note di = reachable_ids2(1) [OF b]
    note d = reachable_ids2(2) [OF b]
    show "read_inbox2 user n (snd (run2 calls (init2 usernames))) =
           (Inr (map (\<lambda>m. get_details (m\<lparr>message_read := True\<rparr>))
                   (selection n (filter (\<lambda>m. \<not> message_read m) box2))),
            (snd (run2 calls (init2 usernames)))\<lparr>boxes2 := (boxes2 (snd (run2 calls (init2 usernames))))(user \<mapsto>
              map (\<lambda>m. if m \<in> set (selection n (filter (\<lambda>m. \<not> message_read m) box2))
                       then m\<lparr>message_read := True\<rparr> else m) box2)\<rparr>)"
      by (rule read_inbox2_by_element [OF b d])
    show "fst (read_inbox2 user 0 (snd (read_inbox2 user 0 (snd (run2 calls (init2 usernames)))))) = Inr []"
      by (simp add: read_twice2 [OF b di] selection_Nil)
    assume "selection n (filter (\<lambda>m. \<not> message_read m) box2) = filter (\<lambda>m. \<not> message_read m) box2"
    then show "fst (read_inbox2 user n (snd (read_inbox2 user n (snd (run2 calls (init2 usernames)))))) = Inr []"
      by (simp only: read_twice2 [OF b di] selection_all_rest) simp
  qed
  have sub1: "set (map (\<lambda>m. m\<lparr>read_key := True\<rparr>) (selection n (filter (\<lambda>m. \<not> read_key m) box))) \<subseteq>
      set (map (\<lambda>m. if m \<in> set (selection n (filter (\<lambda>m. \<not> read_key m) box))
                    then m\<lparr>read_key := True\<rparr> else m) box)"
    by (rule marked_stored)
  have sub2: "set (map (\<lambda>m. m\<lparr>message_read := True\<rparr>) (selection n (filter (\<lambda>m. \<not> message_read m) box2))) \<subseteq>
      set (map (\<lambda>m. if m \<in> set (selection n (filter (\<lambda>m. \<not> message_read m) box2))
                    then m\<lparr>message_read := True\<rparr> else m) box2)"
    by (rule marked_stored)
  have all1: "\<forall>m\<in>set (map (\<lambda>m. m\<lparr>read_key := True\<rparr>) (selection n (filter (\<lambda>m. \<not> read_key m) box))).
      read_key m" by simp
  have all2: "\<forall>m\<in>set (map (\<lambda>m. m\<lparr>message_read := True\<rparr>)
      (selection n (filter (\<lambda>m. \<not> message_read m) box2))). message_read m" by simp
  show ?thesis
    unfolding Let_def using one two sub1 sub2 all1 all2 by blast
qed

text \<open>An instance: after the three sends of \<^verbatim>\<open>show_example\<close>, \<^verbatim>\<open>read_inbox("Newman", 0)\<close>
  returns the three messages as read, and nothing the second time.\<close>

theorem destructive_read_witness:
  "fst (read_inbox ''Newman'' 0 (snd (run (take 3 show_example) (init users)))) =
     Inr [\<lparr>id_key = 1, body_key = ''Hello, Newman.'', sender_key = ''Mr. Peanutbutter'',
            read_key = True\<rparr>,
          \<lparr>id_key = 2, body_key = ''Hello world, Newman.'', sender_key = ''Mr. Peanutbutter'',
            read_key = True\<rparr>,
          \<lparr>id_key = 3, body_key = ''Good bye, Newman.'', sender_key = ''Mr. Peanutbutter'',
            read_key = True\<rparr>] \<and>
   fst (read_inbox ''Newman'' 0
          (snd (read_inbox ''Newman'' 0 (snd (run (take 3 show_example) (init users)))))) = Inr [] \<and>
   fst (read_inbox2 ''Newman'' 0 (snd (run2 (take 3 show_example) (init2 users)))) =
     Inr [{''Id: 1, Body: Hello, Newman., Sender: Mr. Peanutbutter, Read: True''},
          {''Id: 2, Body: Hello world, Newman., Sender: Mr. Peanutbutter, Read: True''},
          {''Id: 3, Body: Good bye, Newman., Sender: Mr. Peanutbutter, Read: True''}] \<and>
   fst (read_inbox2 ''Newman'' 0
          (snd (read_inbox2 ''Newman'' 0 (snd (run2 (take 3 show_example) (init2 users)))))) = Inr []"
  using destructive_read [of "take 3 show_example" users 0
      "[\<lparr>id_key = 1, body_key = ''Hello, Newman.'', sender_key = ''Mr. Peanutbutter'',
          read_key = False\<rparr>,
        \<lparr>id_key = 2, body_key = ''Hello world, Newman.'', sender_key = ''Mr. Peanutbutter'',
          read_key = False\<rparr>,
        \<lparr>id_key = 3, body_key = ''Good bye, Newman.'', sender_key = ''Mr. Peanutbutter'',
          read_key = False\<rparr>]"
      "''Newman''"
      "[\<lparr>message_id_M = 1, message_body = ''Hello, Newman.'',
          message_sender = ''Mr. Peanutbutter'', message_read = False\<rparr>,
        \<lparr>message_id_M = 2, message_body = ''Hello world, Newman.'',
          message_sender = ''Mr. Peanutbutter'', message_read = False\<rparr>,
        \<lparr>message_id_M = 3, message_body = ''Good bye, Newman.'',
          message_sender = ''Mr. Peanutbutter'', message_read = False\<rparr>]"]
  by (simp add: eval_defs)

section \<open>Urgent messages\<close>

lemma reachable_ok: "ids_ok (snd (run cs (init usernames)))"
  by (rule ids_ok_run [OF ids_ok_init])

lemma reachable_ok2: "ids_ok2 (snd (run2 cs (init2 usernames)))"
  by (rule ids_ok2_run [OF ids_ok2_init])

lemma two_urgent:
  assumes "boxes self recipient = Some box" and "read self = False" and "n \<le> 0"
  shows "fst (read_inbox recipient n
               (snd (send_message sender2 recipient body2 True
                  (snd (send_message sender recipient body True self))))) =
         Inr (\<lparr>id_key = message_id self + 2, body_key = body2, sender_key = sender2, read_key = True\<rparr> #
              \<lparr>id_key = message_id self + 1, body_key = body, sender_key = sender, read_key = True\<rparr> #
              map (\<lambda>m. m\<lparr>read_key := True\<rparr>) (filter (\<lambda>m. \<not> read_key m) box))"
proof -
  let ?s1 = "snd (send_message sender recipient body True self)"
  let ?u1 = "\<lparr>id_key = message_id self + 1, body_key = body, sender_key = sender, read_key = False\<rparr>"
  let ?u2 = "\<lparr>id_key = message_id self + 2, body_key = body2, sender_key = sender2, read_key = False\<rparr>"
  have b1: "boxes ?s1 recipient = Some (?u1 # box)"
    and m1: "message_id ?s1 = message_id self + 1" and r1: "read ?s1 = False"
    using assms(2) by (simp_all add: send_message_ok [OF assms(1)])
  have b2: "boxes (snd (send_message sender2 recipient body2 True ?s1)) recipient =
            Some (?u2 # ?u1 # box)"
    using m1 r1 by (simp add: send_message_ok [OF b1])
  show ?thesis
    using assms(3) by (simp add: read_inbox_by_ids [OF b2] selection_nonpos)
qed

lemma two_urgent2:
  assumes "boxes2 self recipient = Some box" and "ids_ok2 self" and "n \<le> 0"
  shows "fst (read_inbox2 recipient n
               (snd (send_message2 sender2 recipient body2 True
                  (snd (send_message2 sender recipient body True self))))) =
         Inr (get_details \<lparr>message_id_M = message_id2 self + 2, message_body = body2,
                 message_sender = sender2, message_read = True\<rparr> #
              get_details \<lparr>message_id_M = message_id2 self + 1, message_body = body,
                 message_sender = sender, message_read = True\<rparr> #
              map (\<lambda>m. get_details (m\<lparr>message_read := True\<rparr>))
                (filter (\<lambda>m. \<not> message_read m) box))"
proof -
  let ?s1 = "snd (send_message2 sender recipient body True self)"
  let ?s2 = "snd (send_message2 sender2 recipient body2 True ?s1)"
  let ?u1 = "\<lparr>message_id_M = message_id2 self + 1, message_body = body,
               message_sender = sender, message_read = False\<rparr>"
  let ?u2 = "\<lparr>message_id_M = message_id2 self + 2, message_body = body2,
               message_sender = sender2, message_read = False\<rparr>"
  have b1: "boxes2 ?s1 recipient = Some (?u1 # box)"
    and m1: "message_id2 ?s1 = message_id2 self + 1"
    by (simp_all add: send_message2_ok [OF assms(1)])
  have b2: "boxes2 ?s2 recipient = Some (?u2 # ?u1 # box)"
    using m1 by (simp add: send_message2_ok [OF b1])
  have "ids_ok2 ?s2" by (intro ids_ok2_send assms(2))
  then have "distinct (map message_id_M (?u2 # ?u1 # box))"
    using b2 unfolding ids_ok2_def by blast
  then have d: "distinct (?u2 # ?u1 # box)" by (rule distinct_by_ids)
  show ?thesis
    using assms(3) by (simp add: read_inbox2_by_element [OF b2 d] selection_nonpos)
qed

text \<open>
  Claim C3. Take any object a client can reach and a registered recipient, with mailbox
  \<open>box\<close>. An urgent send puts the new, unread message at position 0 of the mailbox and a
  send that is not urgent puts it at the back. After two urgent sends \<open>U1\<close> then \<open>U2\<close> to that
  mailbox, \<^verbatim>\<open>read_inbox\<close> with no limit returns \<open>U2\<close>, then \<open>U1\<close>, then the messages that were
  unread before. This holds in both files.
\<close>

theorem urgent_first:
  "(let self = snd (run calls (init usernames))
    in boxes self recipient = Some box \<longrightarrow>
         boxes (snd (send_message sender recipient body True self)) recipient =
           Some (\<lparr>id_key = message_id self + 1, body_key = body, sender_key = sender,
                    read_key = False\<rparr> # box) \<and>
         boxes (snd (send_message sender recipient body False self)) recipient =
           Some (box @ [\<lparr>id_key = message_id self + 1, body_key = body, sender_key = sender,
                          read_key = False\<rparr>]) \<and>
         (n \<le> 0 \<longrightarrow>
            fst (read_inbox recipient n
                  (snd (send_message sender2 recipient body2 True
                     (snd (send_message sender recipient body True self))))) =
            Inr (\<lparr>id_key = message_id self + 2, body_key = body2, sender_key = sender2,
                   read_key = True\<rparr> #
                 \<lparr>id_key = message_id self + 1, body_key = body, sender_key = sender,
                   read_key = True\<rparr> #
                 map (\<lambda>m. m\<lparr>read_key := True\<rparr>) (filter (\<lambda>m. \<not> read_key m) box)))) \<and>
   (let self = snd (run2 calls (init2 usernames))
    in boxes2 self recipient = Some box2 \<longrightarrow>
         boxes2 (snd (send_message2 sender recipient body True self)) recipient =
           Some (\<lparr>message_id_M = message_id2 self + 1, message_body = body,
                    message_sender = sender, message_read = False\<rparr> # box2) \<and>
         boxes2 (snd (send_message2 sender recipient body False self)) recipient =
           Some (box2 @ [\<lparr>message_id_M = message_id2 self + 1, message_body = body,
                           message_sender = sender, message_read = False\<rparr>]) \<and>
         (n \<le> 0 \<longrightarrow>
            fst (read_inbox2 recipient n
                  (snd (send_message2 sender2 recipient body2 True
                     (snd (send_message2 sender recipient body True self))))) =
            Inr (get_details \<lparr>message_id_M = message_id2 self + 2, message_body = body2,
                    message_sender = sender2, message_read = True\<rparr> #
                 get_details \<lparr>message_id_M = message_id2 self + 1, message_body = body,
                    message_sender = sender, message_read = True\<rparr> #
                 map (\<lambda>m. get_details (m\<lparr>message_read := True\<rparr>))
                   (filter (\<lambda>m. \<not> message_read m) box2))))"
proof -
  have r: "read (snd (run calls (init usernames))) = False"
    using reachable_ok [of calls usernames] by (simp add: ids_ok_def)
  have one: "boxes (snd (run calls (init usernames))) recipient = Some box \<longrightarrow>
         boxes (snd (send_message sender recipient body True (snd (run calls (init usernames))))) recipient =
           Some (\<lparr>id_key = message_id (snd (run calls (init usernames))) + 1, body_key = body,
                    sender_key = sender, read_key = False\<rparr> # box) \<and>
         boxes (snd (send_message sender recipient body False (snd (run calls (init usernames))))) recipient =
           Some (box @ [\<lparr>id_key = message_id (snd (run calls (init usernames))) + 1, body_key = body,
                          sender_key = sender, read_key = False\<rparr>])"
    using r by (simp add: send_message_ok)
  have two: "boxes2 (snd (run2 calls (init2 usernames))) recipient = Some box2 \<longrightarrow>
         boxes2 (snd (send_message2 sender recipient body True (snd (run2 calls (init2 usernames))))) recipient =
           Some (\<lparr>message_id_M = message_id2 (snd (run2 calls (init2 usernames))) + 1, message_body = body,
                    message_sender = sender, message_read = False\<rparr> # box2) \<and>
         boxes2 (snd (send_message2 sender recipient body False (snd (run2 calls (init2 usernames))))) recipient =
           Some (box2 @ [\<lparr>message_id_M = message_id2 (snd (run2 calls (init2 usernames))) + 1,
                           message_body = body, message_sender = sender, message_read = False\<rparr>])"
    by (simp add: send_message2_ok)
  show ?thesis
    unfolding Let_def
    using one two two_urgent [OF _ r, of recipient box n sender2 body2 sender body]
      two_urgent2 [OF _ reachable_ok2, of calls usernames recipient box2 n sender2 body2 sender body]
    by blast
qed

text \<open>An instance: one normal message, then \<open>U1\<close> and \<open>U2\<close> urgent, then a read with no
  limit.\<close>

theorem urgent_first_witness:
  "fst (read_inbox ''b'' 0
         (snd (send_message ''a'' ''b'' ''U2'' True
            (snd (send_message ''a'' ''b'' ''U1'' True
               (snd (run [Send_message ''a'' ''b'' ''N'' False] (init [''a'', ''b''])))))))) =
     Inr [\<lparr>id_key = 3, body_key = ''U2'', sender_key = ''a'', read_key = True\<rparr>,
          \<lparr>id_key = 2, body_key = ''U1'', sender_key = ''a'', read_key = True\<rparr>,
          \<lparr>id_key = 1, body_key = ''N'', sender_key = ''a'', read_key = True\<rparr>] \<and>
   fst (read_inbox2 ''b'' 0
         (snd (send_message2 ''a'' ''b'' ''U2'' True
            (snd (send_message2 ''a'' ''b'' ''U1'' True
               (snd (run2 [Send_message ''a'' ''b'' ''N'' False] (init2 [''a'', ''b''])))))))) =
     Inr [{''Id: 3, Body: U2, Sender: a, Read: True''},
          {''Id: 2, Body: U1, Sender: a, Read: True''},
          {''Id: 1, Body: N, Sender: a, Read: True''}]"
  using urgent_first [of "[Send_message ''a'' ''b'' ''N'' False]" "[''a'', ''b'']" "''b''"
      "[\<lparr>id_key = 1, body_key = ''N'', sender_key = ''a'', read_key = False\<rparr>]"
      "''a''" "''U1''" 0 "''a''" "''U2''"
      "[\<lparr>message_id_M = 1, message_body = ''N'', message_sender = ''a'', message_read = False\<rparr>]"]
  by (simp add: eval_defs)

section \<open>The two files behave alike\<close>

lemma as_Message_eq: "as_Message d = as_Message d' \<longleftrightarrow> d = d'"
  by (cases d, cases d') (simp add: as_Message_def)

lemma inj_as_Message: "inj_on as_Message A"
  by (rule inj_onI) (simp add: as_Message_eq)

lemma as_Message_mark: "as_Message (d\<lparr>read_key := True\<rparr>) = (as_Message d)\<lparr>message_read := True\<rparr>"
  by (simp add: as_Message_def)

lemma as_Message_fields:
  "message_read (as_Message d) = read_key d"
  "message_body (as_Message d) = body_key d"
  "message_id_M (as_Message d) = id_key d"
  by (simp_all add: as_Message_def)

lemma unread_as_Message:
  "filter (\<lambda>m. \<not> message_read m) (map as_Message box) =
   map as_Message (filter (\<lambda>d. \<not> read_key d) box)"
  by (simp add: filter_map comp_def as_Message_fields)

lemma selected_as_Message:
  "selection n (filter (\<lambda>m. \<not> message_read m) (map as_Message box)) =
   map as_Message (selection n (filter (\<lambda>d. \<not> read_key d) box))"
  by (simp only: unread_as_Message map_selection)

lemma marked_as_Message:
  "map (\<lambda>m. if m \<in> set (map as_Message X) then m\<lparr>message_read := True\<rparr> else m) (map as_Message box) =
   map as_Message (map (\<lambda>d. if d \<in> set X then d\<lparr>read_key := True\<rparr> else d) box)"
proof -
  have "\<And>d. as_Message d \<in> as_Message ` set X \<longleftrightarrow> d \<in> set X"
    by (auto simp add: as_Message_eq)
  then show ?thesis by (simp add: comp_def as_Message_mark if_distrib [of as_Message] cong: if_cong)
qed

lemma same_send:
  assumes "same_state self self2" and "read self = False"
  shows "same_reply (reply_sent (fst (send_message sender recipient body urgent self)))
           (reply_sent (fst (send_message2 sender recipient body urgent self2))) \<and>
         same_state (snd (send_message sender recipient body urgent self))
           (snd (send_message2 sender recipient body urgent self2))"
proof (cases "boxes self recipient")
  case None
  then have "boxes2 self2 recipient = None" using assms(1) by (simp add: same_state_def)
  then show ?thesis using None assms(1) by (simp add: send_message_def send_message2_def)
next
  case (Some box)
  then have b2: "boxes2 self2 recipient = Some (map as_Message box)"
    using assms(1) by (simp add: same_state_def)
  show ?thesis
    using assms
    by (simp add: send_message_ok [OF Some] send_message2_ok [OF b2] same_state_def
        as_Message_def)
qed

lemma same_read:
  assumes "same_state self self2" and "ids_ok self"
  shows "same_reply (reply_listed (fst (read_inbox user n self)))
           (reply_listed (fst (read_inbox2 user n self2))) \<and>
         same_state (snd (read_inbox user n self)) (snd (read_inbox2 user n self2))"
proof (cases "boxes self user")
  case None
  then have "boxes2 self2 user = None" using assms(1) by (simp add: same_state_def)
  then show ?thesis using None assms(1) by (simp add: read_inbox_def read_inbox2_def)
next
  case (Some box)
  then have b2: "boxes2 self2 user = Some (map as_Message box)"
    using assms(1) by (simp add: same_state_def)
  have d: "distinct (map id_key box)" using assms(2) Some by (simp add: ids_ok_def)
  then have "distinct box" by (simp add: distinct_map)
  then have d2: "distinct (map as_Message box)"
    by (simp add: distinct_map inj_as_Message)
  let ?X = "selection n (filter (\<lambda>d. \<not> read_key d) box)"
  let ?B1 = "map (\<lambda>d. if d \<in> set ?X then d\<lparr>read_key := True\<rparr> else d) box"
  have r1: "read_inbox user n self =
      (Inr (map (\<lambda>d. d\<lparr>read_key := True\<rparr>) ?X), self\<lparr>boxes := (boxes self)(user \<mapsto> ?B1)\<rparr>)"
    by (rule read_inbox_by_element [OF Some d])
  have r2: "read_inbox2 user n self2 =
      (Inr (map (\<lambda>m. get_details (m\<lparr>message_read := True\<rparr>)) (map as_Message ?X)),
       self2\<lparr>boxes2 := (boxes2 self2)(user \<mapsto> map as_Message ?B1)\<rparr>)"
    using read_inbox2_by_element [OF b2 d2, of n]
    by (simp only: selected_as_Message marked_as_Message)
  have res: "map (\<lambda>m. get_details (m\<lparr>message_read := True\<rparr>)) (map as_Message ?X) =
             map (\<lambda>d. get_details (as_Message d)) (map (\<lambda>d. d\<lparr>read_key := True\<rparr>) ?X)"
    by (simp add: comp_def as_Message_mark)
  show ?thesis
    using assms(1) unfolding r1 r2 res by (simp add: same_state_def)
qed

lemma same_search:
  assumes "same_state self self2"
  shows "same_reply (reply_listed (fst (search_inbox user part self)))
           (reply_listed (fst (search_inbox2 user part self2))) \<and>
         same_state (snd (search_inbox user part self)) (snd (search_inbox2 user part self2))"
proof (cases "boxes self user")
  case None
  then have "boxes2 self2 user = None" using assms(1) by (simp add: same_state_def)
  then show ?thesis using None assms(1) by (simp add: search_inbox_def search_inbox2_def)
next
  case (Some box)
  then have b2: "boxes2 self2 user = Some (map as_Message box)"
    using assms(1) by (simp add: same_state_def)
  show ?thesis
    using assms(1) Some b2
    by (simp add: search_inbox_def search_inbox2_def filter_map comp_def as_Message_fields)
qed

lemma same_do_call:
  assumes "same_state self self2" and "ids_ok self"
  shows "same_reply (fst (do_call c self)) (fst (do_call2 c self2)) \<and>
         same_state (snd (do_call c self)) (snd (do_call2 c self2))"
proof (cases c)
  case (Send_message sender recipient body urgent)
  have r: "read self = False" using assms(2) by (simp add: ids_ok_def)
  show ?thesis
    using same_send [OF assms(1) r, of sender recipient body urgent] Send_message
    by (simp add: split_def Let_def)
next
  case (Read_inbox user n)
  show ?thesis
    using same_read [OF assms, of user n] Read_inbox by (simp add: split_def Let_def)
next
  case (Search_inbox user part)
  show ?thesis
    using same_search [OF assms(1), of user part] Search_inbox by (simp add: split_def Let_def)
qed

lemma same_run:
  assumes "same_state self self2" and "ids_ok self"
  shows "list_all2 same_reply (fst (run cs self)) (fst (run2 cs self2)) \<and>
         same_state (snd (run cs self)) (snd (run2 cs self2))"
  using assms
proof (induction cs arbitrary: self self2)
  case Nil
  then show ?case by simp
next
  case (Cons c cs)
  note step = same_do_call [OF Cons.prems, of c]
  note ok = ids_ok_do_call [OF Cons.prems(2), of c]
  from step have st: "same_state (snd (do_call c self)) (snd (do_call2 c self2))" by simp
  show ?case
    using step Cons.IH [OF st ok]
    by (simp add: run_Cons run2_Cons del: run.simps(2) run2.simps(2))
qed

text \<open>
  Claim C9. For every list of usernames and every sequence of calls, run on a new object of
  each file: the replies correspond call by call (the same ids from \<^verbatim>\<open>send_message\<close>, the
  same exceptions, the same messages in the same order from \<^verbatim>\<open>read_inbox\<close> and
  \<^verbatim>\<open>search_inbox\<close>), and the final objects correspond (the same counter, and in every
  mailbox the same ids, bodies, senders and read flags in the same order).
\<close>

theorem files_equivalent:
  "list_all2 same_reply (fst (run calls (init usernames))) (fst (run2 calls (init2 usernames))) \<and>
   same_state (snd (run calls (init usernames))) (snd (run2 calls (init2 usernames)))"
proof (rule same_run)
  show "same_state (init usernames) (init2 usernames)"
    by (simp add: same_state_def init_def init2_def dict_comp_lookup)
  show "ids_ok (init usernames)" by (rule ids_ok_init)
qed

text \<open>An instance: the calls of \<^verbatim>\<open>show_example\<close>.\<close>

theorem files_equivalent_witness:
  "list_all2 same_reply (fst (run show_example (init users))) (fst (run2 show_example (init2 users))) \<and>
   fst (run2 show_example (init2 users)) =
     [Sent 1, Sent 2, Sent 3,
      Listed [{''Id: 1, Body: Hello, Newman., Sender: Mr. Peanutbutter, Read: True''}],
      Listed [{''Id: 2, Body: Hello world, Newman., Sender: Mr. Peanutbutter, Read: True''}],
      Listed [{''Id: 3, Body: Good bye, Newman., Sender: Mr. Peanutbutter, Read: False''}],
      Listed [{''Id: 1, Body: Hello, Newman., Sender: Mr. Peanutbutter, Read: True''},
              {''Id: 2, Body: Hello world, Newman., Sender: Mr. Peanutbutter, Read: True''}],
      Listed []]"
  using files_equivalent [of show_example users] by (simp add: eval_defs)

section \<open>Unknown users\<close>

text \<open>
  Claim C6. \<^verbatim>\<open>send_message\<close> to a recipient that has no mailbox, and \<^verbatim>\<open>read_inbox\<close> or
  \<^verbatim>\<open>search_inbox\<close> for a user that has none, raise \<^verbatim>\<open>KeyError\<close> and leave the whole
  object as it was: the counter is not incremented and every mailbox is unchanged. This
  holds in both files, from any state of the object.
\<close>

theorem unknown_user_no_mutation:
  "(boxes self user = None \<longrightarrow>
      send_message sender user body urgent self = (Inl KeyError, self) \<and>
      read_inbox user n self = (Inl KeyError, self) \<and>
      search_inbox user part self = (Inl KeyError, self)) \<and>
   (boxes2 self2 user = None \<longrightarrow>
      send_message2 sender user body urgent self2 = (Inl KeyError, self2) \<and>
      read_inbox2 user n self2 = (Inl KeyError, self2) \<and>
      search_inbox2 user part self2 = (Inl KeyError, self2))"
  by (simp add: send_message_def read_inbox_def search_inbox_def
      send_message2_def read_inbox2_def search_inbox2_def)

theorem unknown_user_no_mutation_witness:
  "boxes (init [''a'']) ''b'' = None \<and>
   send_message ''a'' ''b'' ''Hello!'' True (init [''a'']) = (Inl KeyError, init [''a'']) \<and>
   read_inbox ''b'' 1 (init [''a'']) = (Inl KeyError, init [''a'']) \<and>
   search_inbox ''b'' ''llo'' (init [''a'']) = (Inl KeyError, init [''a'']) \<and>
   boxes2 (init2 [''a'']) ''b'' = None \<and>
   send_message2 ''a'' ''b'' ''Hello!'' True (init2 [''a'']) = (Inl KeyError, init2 [''a'']) \<and>
   read_inbox2 ''b'' 1 (init2 [''a'']) = (Inl KeyError, init2 [''a'']) \<and>
   search_inbox2 ''b'' ''llo'' (init2 [''a'']) = (Inl KeyError, init2 [''a''])"
proof -
  have a: "boxes (init [''a'']) ''b'' = None" by (simp add: init_def)
  have b: "boxes2 (init2 [''a'']) ''b'' = None" by (simp add: init2_def)
  show ?thesis
    using a b unknown_user_no_mutation
      [of "init [''a'']" "''b''" "''a''" "''Hello!''" True 1 "''llo''" "init2 [''a'']"]
    by simp
qed

section \<open>Duplicate usernames\<close>

text \<open>
  Claim C7, as stated: constructing a post office from a list with a duplicate username
  fails with \<open>ConfigError\<close>. It does not: on \<^verbatim>\<open>['a', 'a']\<close> both constructors return.
\<close>

theorem duplicates_counterexample:
  "construct [''a'', ''a''] \<noteq> Inl ConfigError \<and> construct2 [''a'', ''a''] \<noteq> Inl ConfigError"
  by (simp add: construct_def construct2_def)

text \<open>
  Claim C7, amended: the constructor never fails. For every username list, with or without
  duplicates, it returns an object whose counter is 0 and that has exactly one empty mailbox
  for each distinct username of the list, so duplicates collapse into one mailbox.
\<close>

theorem construct_collapses:
  "construct usernames = Inr (init usernames) \<and>
   message_id (init usernames) = 0 \<and>
   boxes (init usernames) = (\<lambda>u. if u \<in> set usernames then Some [] else None) \<and>
   construct2 usernames = Inr (init2 usernames) \<and>
   message_id2 (init2 usernames) = 0 \<and>
   boxes2 (init2 usernames) = (\<lambda>u. if u \<in> set usernames then Some [] else None)"
  by (auto simp add: construct_def construct2_def init_def init2_def dict_comp_lookup)

end
